theory Spec2Isabelle
  imports Main "HOL-Library.Word"
begin

section \<open>The host's values\<close>

text \<open>
  \<^verbatim>\<open>SpnValue\<close> is the tagged union of the Sparkling host. Its type tags
  (\<^verbatim>\<open>spn_valtype\<close>) are nil, bool, number (integer or float), string, array,
  hashmap, function and user info. Integers are the host's \<^verbatim>\<open>long\<close>
  (64 bits), a float is carried as the 64 bits of its \<^verbatim>\<open>double\<close>: the
  bindings only pass numbers through. A string is its bytes with their length, so it
  may hold NUL bytes. A user info value is a pointer; the only pointer the bindings
  know is the address of their own \<^verbatim>\<open>null_value\<close>.
\<close>

datatype user_ptr = AddrNullValue | AddrOther nat

datatype spn_value =
    VNil
  | VBool bool
  | VInt "64 word"
  | VFloat "64 word"
  | VString string
  | VArray "spn_value list"
  | VHashMap "(spn_value \<times> spn_value) list"
  | VFunc nat
  | VUserInfo user_ptr

definition spn_nilval :: spn_value where
  "spn_nilval = VNil"

text \<open>\<^verbatim>\<open>static const SpnValue null_value = { .type = SPN_TYPE_WEAKUSERINFO, .v.p = (void *)&null_value };\<close>\<close>

definition null_value :: spn_value where
  "null_value = VUserInfo AddrNullValue"

fun spn_isnil :: "spn_value \<Rightarrow> bool" where
  "spn_isnil VNil = True"
| "spn_isnil _ = False"

fun spn_isbool :: "spn_value \<Rightarrow> bool" where
  "spn_isbool (VBool _) = True"
| "spn_isbool _ = False"

fun spn_isstring :: "spn_value \<Rightarrow> bool" where
  "spn_isstring (VString _) = True"
| "spn_isstring _ = False"

fun spn_isarray :: "spn_value \<Rightarrow> bool" where
  "spn_isarray (VArray _) = True"
| "spn_isarray _ = False"

fun spn_ishashmap :: "spn_value \<Rightarrow> bool" where
  "spn_ishashmap (VHashMap _) = True"
| "spn_ishashmap _ = False"

text \<open>
  The accessors are only called behind the matching type test; on another variant the
  model returns a fixed value that no caller reads.
\<close>

fun spn_boolvalue :: "spn_value \<Rightarrow> bool" where
  "spn_boolvalue (VBool b) = b"
| "spn_boolvalue _ = False"

fun spn_stringvalue :: "spn_value \<Rightarrow> string" where
  "spn_stringvalue (VString s) = s"
| "spn_stringvalue _ = []"

text \<open>
  Modelled from the spec: the host's map type, whose implementation
  (\<^verbatim>\<open>spn_hashmap_set\<close>, \<^verbatim>\<open>spn_hashmap_get_strkey\<close>,
  \<^verbatim>\<open>spn_hashmap_next\<close>) is not part of the bindings. The spec's data model gives a
  map as an ordered sequence of (key, value) pairs, keys unique, last write wins,
  iterated in insertion order: an association list in which \<^verbatim>\<open>set\<close> overwrites
  the value of a key in place and appends a new key at the end, \<^verbatim>\<open>get\<close> answers
  nil for a key that is not there, and \<^verbatim>\<open>next\<close> walks the list front to back.
  Setting a key to nil is a deletion (spec, section 4.2): the key is removed, so that
  afterwards it cannot be told from a key that was never there, and a map never holds
  nil as a value.
\<close>

fun hashmap_put ::
  "(spn_value \<times> spn_value) list \<Rightarrow> spn_value \<Rightarrow> spn_value \<Rightarrow> (spn_value \<times> spn_value) list" where
  "hashmap_put [] k v = [(k, v)]"
| "hashmap_put ((k', v') # hm) k v =
     (if k' = k then (k, v) # hm else (k', v') # hashmap_put hm k v)"

fun hashmap_remove ::
  "(spn_value \<times> spn_value) list \<Rightarrow> spn_value \<Rightarrow> (spn_value \<times> spn_value) list" where
  "hashmap_remove [] k = []"
| "hashmap_remove ((k', v') # hm) k =
     (if k' = k then hashmap_remove hm k else (k', v') # hashmap_remove hm k)"

definition spn_hashmap_set ::
  "(spn_value \<times> spn_value) list \<Rightarrow> spn_value \<Rightarrow> spn_value \<Rightarrow> (spn_value \<times> spn_value) list" where
  "spn_hashmap_set hm k v = (if spn_isnil v then hashmap_remove hm k else hashmap_put hm k v)"

fun spn_hashmap_get_strkey :: "(spn_value \<times> spn_value) list \<Rightarrow> string \<Rightarrow> spn_value" where
  "spn_hashmap_get_strkey [] name = spn_nilval"
| "spn_hashmap_get_strkey ((k, v) # hm) name =
     (if k = VString name then v else spn_hashmap_get_strkey hm name)"

section \<open>Parser state\<close>

text \<open>
  An \<^verbatim>\<open>assert\<close> that fails aborts the process; the model returns the abort as
  a value, naming the assertion.
\<close>

datatype abort = AssertionFailed string

text \<open>
  \<^verbatim>\<open>StackNode\<close>: the pending key (for maps only) and the collection under
  construction; \<^verbatim>\<open>next\<close> is the tail of the list.
\<close>

record stack_node =
  node_key :: spn_value
  node_value :: spn_value

text \<open>
  \<^verbatim>\<open>ParserState\<close>. The field \<open>released\<close> is not in the C struct: it records,
  in order, the values handed to \<^verbatim>\<open>spn_value_release\<close> during the parse.
\<close>

record parser_state =
  root :: spn_value
  stack :: "stack_node list"
  explicit_null :: bool
  released :: "spn_value list"

definition state_init :: parser_state where
  "state_init = \<lparr>root = spn_nilval, stack = [], explicit_null = False, released = []\<rparr>"

text \<open>\<^verbatim>\<open>state_free\<close> walks the list and releases each node's key, then its value.\<close>

fun free_nodes :: "stack_node list \<Rightarrow> spn_value list" where
  "free_nodes [] = []"
| "free_nodes (head # next) = node_key head # node_value head # free_nodes next"

definition state_free :: "parser_state \<Rightarrow> parser_state" where
  "state_free state = state\<lparr>stack := [], released := released state @ free_nodes (stack state)\<rparr>"

definition state_push :: "parser_state \<Rightarrow> spn_value \<Rightarrow> abort + parser_state" where
  "state_push state collection =
     (if spn_isarray collection \<or> spn_ishashmap collection
      then Inr (state\<lparr>stack := \<lparr>node_key = spn_nilval, node_value = collection\<rparr> # stack state\<rparr>)
      else Inl (AssertionFailed ''spn_isarray(&collection) || spn_ishashmap(&collection)''))"

definition state_pop :: "parser_state \<Rightarrow> abort + (spn_value \<times> parser_state)" where
  "state_pop state =
     (case stack state of
        [] \<Rightarrow> Inl (AssertionFailed ''state->stack'')
      | head # next \<Rightarrow>
          if spn_isnil (node_key head)
          then Inr (node_value head, state\<lparr>stack := next\<rparr>)
          else Inl (AssertionFailed ''spn_isnil(&head->key)''))"

definition set_value :: "parser_state \<Rightarrow> spn_value \<Rightarrow> abort + parser_state" where
  "set_value state v =
     (case stack state of
        [] \<Rightarrow> Inr (state\<lparr>root := v\<rparr>)
      | head # next \<Rightarrow>
          (case node_value head of
             VArray array \<Rightarrow>
               Inr (state\<lparr>stack := head\<lparr>node_value := VArray (array @ [v])\<rparr> # next,
                          released := released state @ [v]\<rparr>)
           | VHashMap hashmap \<Rightarrow>
               if spn_isstring (node_key head)
               then Inr (state\<lparr>stack :=
                            \<lparr>node_key = spn_nilval,
                             node_value = VHashMap (spn_hashmap_set hashmap (node_key head) v)\<rparr> # next,
                          released := released state @ [node_key head, v]\<rparr>)
               else Inl (AssertionFailed ''spn_isstring(&state->stack->key)'')
           | _ \<Rightarrow> Inl (AssertionFailed ''cannot add value to non-collection object'')))"

section \<open>Parser callbacks\<close>

text \<open>
  Each callback returns the \<^verbatim>\<open>int\<close> it hands back to the Lexer, with the state
  it leaves.
\<close>

definition cb_null :: "parser_state \<Rightarrow> abort + (int \<times> parser_state)" where
  "cb_null state =
     (let nullrepr = (if explicit_null state then null_value else spn_nilval) in
      case set_value state nullrepr of Inl a \<Rightarrow> Inl a | Inr state' \<Rightarrow> Inr (1, state'))"

definition cb_boolean :: "parser_state \<Rightarrow> bool \<Rightarrow> abort + (int \<times> parser_state)" where
  "cb_boolean state boolval =
     (case set_value state (VBool boolval) of Inl a \<Rightarrow> Inl a | Inr state' \<Rightarrow> Inr (1, state'))"

definition cb_integer :: "parser_state \<Rightarrow> 64 word \<Rightarrow> abort + (int \<times> parser_state)" where
  "cb_integer state intval =
     (case set_value state (VInt intval) of Inl a \<Rightarrow> Inl a | Inr state' \<Rightarrow> Inr (1, state'))"

definition cb_double :: "parser_state \<Rightarrow> 64 word \<Rightarrow> abort + (int \<times> parser_state)" where
  "cb_double state doubleval =
     (case set_value state (VFloat doubleval) of Inl a \<Rightarrow> Inl a | Inr state' \<Rightarrow> Inr (1, state'))"

definition cb_string :: "parser_state \<Rightarrow> string \<Rightarrow> abort + (int \<times> parser_state)" where
  "cb_string state strval =
     (case set_value state (VString strval) of Inl a \<Rightarrow> Inl a | Inr state' \<Rightarrow> Inr (1, state'))"

definition cb_start_map :: "parser_state \<Rightarrow> abort + (int \<times> parser_state)" where
  "cb_start_map state =
     (case state_push state (VHashMap []) of Inl a \<Rightarrow> Inl a | Inr state' \<Rightarrow> Inr (1, state'))"

definition cb_map_key :: "parser_state \<Rightarrow> string \<Rightarrow> abort + (int \<times> parser_state)" where
  "cb_map_key state k =
     (case stack state of
        [] \<Rightarrow> Inl (AssertionFailed ''state->stack'')
      | head # next \<Rightarrow>
          if spn_isnil (node_key head)
          then Inr (1, state\<lparr>stack := head\<lparr>node_key := VString k\<rparr> # next\<rparr>)
          else Inl (AssertionFailed ''spn_isnil(&state->stack->key)''))"

definition cb_end_map :: "parser_state \<Rightarrow> abort + (int \<times> parser_state)" where
  "cb_end_map state =
     (case state_pop state of
        Inl a \<Rightarrow> Inl a
      | Inr (v, state') \<Rightarrow>
          (case set_value state' v of Inl a \<Rightarrow> Inl a | Inr state'' \<Rightarrow> Inr (1, state'')))"

definition cb_start_array :: "parser_state \<Rightarrow> abort + (int \<times> parser_state)" where
  "cb_start_array state =
     (case state_push state (VArray []) of Inl a \<Rightarrow> Inl a | Inr state' \<Rightarrow> Inr (1, state'))"

definition cb_end_array :: "parser_state \<Rightarrow> abort + (int \<times> parser_state)" where
  "cb_end_array state =
     (case state_pop state of
        Inl a \<Rightarrow> Inl a
      | Inr (v, state') \<Rightarrow>
          (case set_value state' v of Inl a \<Rightarrow> Inl a | Inr state'' \<Rightarrow> Inr (1, state'')))"

section \<open>The Lexer\<close>

text \<open>
  The Lexer (yajl's parser) is not part of the bindings. A handle is modelled by the
  options \<^verbatim>\<open>yajl_config\<close> has set on it, in order. What the Lexer makes of a text
  is a parameter of \<open>json_parse\<close>: for a handle and a text it gives the events
  \<^verbatim>\<open>yajl_parse\<close> and then \<^verbatim>\<open>yajl_complete_parse\<close> raise, the status each
  returns of its own, and the text \<^verbatim>\<open>yajl_get_error\<close> (verbose) gives.
\<close>

datatype yajl_status = yajl_status_ok | yajl_status_client_canceled | yajl_status_error

datatype yajl_option =
    yajl_allow_comments
  | yajl_dont_validate_strings
  | yajl_allow_trailing_garbage
  | yajl_allow_multiple_values
  | yajl_allow_partial_values

type_synonym yajl_handle = "(yajl_option \<times> bool) list"

definition yajl_alloc :: yajl_handle where
  "yajl_alloc = []"

definition yajl_config :: "yajl_handle \<Rightarrow> yajl_option \<Rightarrow> bool \<Rightarrow> yajl_handle" where
  "yajl_config hndl opt b = hndl @ [(opt, b)]"

datatype event =
    EvNull
  | EvBoolean bool
  | EvInteger "64 word"
  | EvDouble "64 word"
  | EvString string
  | EvStartMap
  | EvMapKey string
  | EvEndMap
  | EvStartArray
  | EvEndArray

record lexer_run =
  parse_events :: "event list"
  parse_status :: yajl_status
  complete_events :: "event list"
  complete_status :: yajl_status
  error_string :: string

type_synonym lexer = "yajl_handle \<Rightarrow> string \<Rightarrow> lexer_run"

text \<open>\<^verbatim>\<open>parser_callbacks\<close>: the table that routes each event to its callback.\<close>

fun parser_callbacks :: "event \<Rightarrow> parser_state \<Rightarrow> abort + (int \<times> parser_state)" where
  "parser_callbacks EvNull state = cb_null state"
| "parser_callbacks (EvBoolean b) state = cb_boolean state b"
| "parser_callbacks (EvInteger i) state = cb_integer state i"
| "parser_callbacks (EvDouble d) state = cb_double state d"
| "parser_callbacks (EvString s) state = cb_string state s"
| "parser_callbacks EvStartMap state = cb_start_map state"
| "parser_callbacks (EvMapKey k) state = cb_map_key state k"
| "parser_callbacks EvEndMap state = cb_end_map state"
| "parser_callbacks EvStartArray state = cb_start_array state"
| "parser_callbacks EvEndArray state = cb_end_array state"

text \<open>
  Modelled from the spec: the Lexer's side of the callback protocol, which is yajl's
  code. Each handler returns success or failure to the Lexer; the Lexer calls the
  callback of each event in order, a callback that returns 0 cancels the parse, which
  then ends with \<^verbatim>\<open>yajl_status_client_canceled\<close>, and otherwise the call ends
  with the Lexer's own status.
\<close>

fun yajl_deliver ::
  "event list \<Rightarrow> yajl_status \<Rightarrow> parser_state \<Rightarrow> abort + (yajl_status \<times> parser_state)" where
  "yajl_deliver [] own state = Inr (own, state)"
| "yajl_deliver (e # es) own state =
     (case parser_callbacks e state of
        Inl a \<Rightarrow> Inl a
      | Inr (r, state') \<Rightarrow>
          if r = 0 then Inr (yajl_status_client_canceled, state')
          else yajl_deliver es own state')"

section \<open>Parse driver\<close>

definition parser_set_bool_option ::
  "yajl_handle \<Rightarrow> yajl_option \<Rightarrow> (spn_value \<times> spn_value) list \<Rightarrow> string \<Rightarrow> yajl_handle" where
  "parser_set_bool_option parser opt config name =
     (let optval = spn_hashmap_get_strkey config name in
      if spn_isbool optval then yajl_config parser opt (spn_boolvalue optval) else parser)"

definition state_set_bool_option ::
  "bool \<Rightarrow> (spn_value \<times> spn_value) list \<Rightarrow> string \<Rightarrow> bool" where
  "state_set_bool_option opt config name =
     (let optval = spn_hashmap_get_strkey config name in
      if spn_isbool optval then spn_boolvalue optval else opt)"

definition config_parser ::
  "yajl_handle \<Rightarrow> parser_state \<Rightarrow> spn_value \<Rightarrow> abort + (yajl_handle \<times> parser_state)" where
  "config_parser parser state config_obj =
     (case config_obj of
        VHashMap config \<Rightarrow>
          Inr (parser_set_bool_option parser yajl_allow_comments config ''comment'',
               state\<lparr>explicit_null :=
                 state_set_bool_option (explicit_null state) config ''parse_null''\<rparr>)
      | _ \<Rightarrow> Inl (AssertionFailed ''spn_ishashmap(&config_obj)''))"

text \<open>
  What a native function leaves behind: its return code, the value stored through
  \<^verbatim>\<open>ret\<close> (if it stored one), the messages given to
  \<^verbatim>\<open>spn_ctx_runtime_error\<close>, and the values it released.
\<close>

record call_result =
  rv :: int
  ret :: "spn_value option"
  ctx_errors :: "string list"
  released_values :: "spn_value list"

text \<open>
  \<^verbatim>\<open>error_message_to_spn_context\<close> asks the Lexer for its verbose error text and
  reports it as a runtime error.
\<close>

definition error_message_to_spn_context :: "lexer_run \<Rightarrow> string list \<Rightarrow> string list" where
  "error_message_to_spn_context run ctx =
     (let errmsg = error_string run in ctx @ [''error parsing JSON: '' @ errmsg])"

definition json_parse :: "lexer \<Rightarrow> spn_value list \<Rightarrow> abort + call_result" where
  "json_parse lx argv =
     (let argc = length argv in
      if argc < 1 \<or> argc > 2 then
        Inr \<lparr>rv = - 1, ret = None, ctx_errors = [''expecting 1 or 2 arguments''],
             released_values = []\<rparr>
      else if \<not> spn_isstring (argv ! 0) then
        Inr \<lparr>rv = - 2, ret = None, ctx_errors = [''1st argument must be a string''],
             released_values = []\<rparr>
      else if argc \<ge> 2 \<and> \<not> spn_ishashmap (argv ! 1) then
        Inr \<lparr>rv = - 3, ret = None, ctx_errors = [''2nd argument must be a config object''],
             released_values = []\<rparr>
      else
        let str = spn_stringvalue (argv ! 0) in
        case (if argc \<ge> 2 then config_parser yajl_alloc state_init (argv ! 1)
              else Inr (yajl_alloc, state_init)) of
          Inl a \<Rightarrow> Inl a
        | Inr (yajl_hndl, state0) \<Rightarrow>
            let run = lx yajl_hndl str in
            (case yajl_deliver (parse_events run) (parse_status run) state0 of
               Inl a \<Rightarrow> Inl a
             | Inr (status1, state1) \<Rightarrow>
                 let rv1 = (if status1 \<noteq> yajl_status_ok then - 4 else 0) in
                 (case yajl_deliver (complete_events run) (complete_status run) state1 of
                    Inl a \<Rightarrow> Inl a
                  | Inr (status2, state2) \<Rightarrow>
                      let rv2 = (if rv1 = 0 \<and> status2 \<noteq> yajl_status_ok then - 5 else rv1) in
                      if rv2 = 0 then
                        Inr \<lparr>rv = rv2, ret = Some (root state2), ctx_errors = [],
                             released_values = released (state_free state2)\<rparr>
                      else
                        Inr \<lparr>rv = rv2, ret = None,
                             ctx_errors = error_message_to_spn_context run [],
                             released_values =
                               released (state_free
                                 (state2\<lparr>released := released state2 @ [root state2]\<rparr>))\<rparr>)))"

section \<open>The Writer\<close>

text \<open>
  The Writer (yajl's generator) is not part of the bindings either. It is a parameter
  of the generator functions: a handle type \<open>'g\<close> with the handle
  \<^verbatim>\<open>yajl_gen_alloc\<close> returns, the effect of \<^verbatim>\<open>yajl_gen_config\<close> on a handle,
  the status and the new handle of each emitting call, and the status and buffer of
  \<^verbatim>\<open>yajl_gen_get_buf\<close>.
\<close>

datatype yajl_gen_status =
    yajl_gen_status_ok
  | yajl_gen_keys_must_be_strings
  | yajl_max_depth_exceeded
  | yajl_gen_in_error_state
  | yajl_gen_generation_complete
  | yajl_gen_invalid_number
  | yajl_gen_no_buf
  | yajl_gen_invalid_string

datatype yajl_gen_option =
    yajl_gen_beautify
  | yajl_gen_indent_string
  | yajl_gen_validate_utf8
  | yajl_gen_escape_solidus
  | yajl_gen_print_callback

datatype gen_optval = OptBool bool | OptString string

datatype gen_call =
    Gen_null
  | Gen_bool bool
  | Gen_integer "64 word"
  | Gen_double "64 word"
  | Gen_string string
  | Gen_array_open
  | Gen_array_close
  | Gen_map_open
  | Gen_map_close

record 'g writer =
  yajl_gen_alloc :: 'g
  yajl_gen_config :: "'g \<Rightarrow> yajl_gen_option \<Rightarrow> gen_optval \<Rightarrow> 'g"
  yajl_gen :: "'g \<Rightarrow> gen_call \<Rightarrow> yajl_gen_status \<times> 'g"
  yajl_gen_get_buf :: "'g \<Rightarrow> yajl_gen_status \<times> string"

section \<open>JSON generator\<close>

text \<open>The text of each call as \<^verbatim>\<open>RETURN_IF_FAIL\<close> stringifies it.\<close>

fun call_text :: "gen_call \<Rightarrow> string" where
  "call_text Gen_null = ''yajl_gen_null(gen)''"
| "call_text (Gen_bool _) = ''yajl_gen_bool(gen, spn_boolvalue(&node))''"
| "call_text (Gen_integer _) = ''yajl_gen_integer(gen, spn_intvalue(&node))''"
| "call_text (Gen_double _) = ''yajl_gen_double(gen, spn_floatvalue(&node))''"
| "call_text (Gen_string _) = ''yajl_gen_string(gen, str, length)''"
| "call_text Gen_array_open = ''yajl_gen_array_open(gen)''"
| "call_text Gen_array_close = ''yajl_gen_array_close(gen)''"
| "call_text Gen_map_open = ''yajl_gen_map_open(gen)''"
| "call_text Gen_map_close = ''yajl_gen_map_close(gen)''"

text \<open>
  \<^verbatim>\<open>RETURN_IF_FAIL(call)\<close>: makes the call; when its status is not ok it reports
  the runtime error and the enclosing function returns -1 (the first component is
  True).
\<close>

definition RETURN_IF_FAIL ::
  "'g writer \<Rightarrow> 'g \<Rightarrow> string list \<Rightarrow> gen_call \<Rightarrow> bool \<times> 'g \<times> string list" where
  "RETURN_IF_FAIL w gen ctx c =
     (case yajl_gen w gen c of
        (status, gen') \<Rightarrow>
          if status \<noteq> yajl_gen_status_ok
          then (True, gen', ctx @ [''YAJL error: '' @ call_text c])
          else (False, gen', ctx))"

text \<open>
  \<^verbatim>\<open>generate_recursive\<close> returns its error code with the Writer handle and the
  runtime errors reported so far. The \<^verbatim>\<open>for\<close> loop over an array and the
  \<^verbatim>\<open>while\<close> loop over a hashmap's pairs are the two auxiliary functions.
\<close>

function generate_recursive ::
    "'g writer \<Rightarrow> 'g \<Rightarrow> string list \<Rightarrow> spn_value \<Rightarrow> int \<times> 'g \<times> string list"
  and generate_array_loop ::
    "'g writer \<Rightarrow> 'g \<Rightarrow> string list \<Rightarrow> spn_value list \<Rightarrow> int \<times> 'g \<times> string list"
  and generate_hashmap_loop ::
    "'g writer \<Rightarrow> 'g \<Rightarrow> string list \<Rightarrow> (spn_value \<times> spn_value) list \<Rightarrow> int \<times> 'g \<times> string list"
where
  "generate_recursive w gen ctx VNil =
     (case RETURN_IF_FAIL w gen ctx Gen_null of
        (failed, gen1, ctx1) \<Rightarrow> if failed then (- 1, gen1, ctx1) else (0, gen1, ctx1))"
| "generate_recursive w gen ctx (VBool b) =
     (case RETURN_IF_FAIL w gen ctx (Gen_bool b) of
        (failed, gen1, ctx1) \<Rightarrow> if failed then (- 1, gen1, ctx1) else (0, gen1, ctx1))"
| "generate_recursive w gen ctx (VInt i) =
     (case RETURN_IF_FAIL w gen ctx (Gen_integer i) of
        (failed, gen1, ctx1) \<Rightarrow> if failed then (- 1, gen1, ctx1) else (0, gen1, ctx1))"
| "generate_recursive w gen ctx (VFloat d) =
     (case RETURN_IF_FAIL w gen ctx (Gen_double d) of
        (failed, gen1, ctx1) \<Rightarrow> if failed then (- 1, gen1, ctx1) else (0, gen1, ctx1))"
| "generate_recursive w gen ctx (VString str) =
     (case RETURN_IF_FAIL w gen ctx (Gen_string str) of
        (failed, gen1, ctx1) \<Rightarrow> if failed then (- 1, gen1, ctx1) else (0, gen1, ctx1))"
| "generate_recursive w gen ctx (VArray array) =
     (case RETURN_IF_FAIL w gen ctx Gen_array_open of
        (failed, gen1, ctx1) \<Rightarrow>
          if failed then (- 1, gen1, ctx1)
          else
            (case generate_array_loop w gen1 ctx1 array of
               (error, gen2, ctx2) \<Rightarrow>
                 if error \<noteq> 0 then (- 1, gen2, ctx2)
                 else
                   (case RETURN_IF_FAIL w gen2 ctx2 Gen_array_close of
                      (failed, gen3, ctx3) \<Rightarrow>
                        if failed then (- 1, gen3, ctx3) else (0, gen3, ctx3))))"
| "generate_recursive w gen ctx (VHashMap hm) =
     (case RETURN_IF_FAIL w gen ctx Gen_map_open of
        (failed, gen1, ctx1) \<Rightarrow>
          if failed then (- 1, gen1, ctx1)
          else
            (case generate_hashmap_loop w gen1 ctx1 hm of
               (error, gen2, ctx2) \<Rightarrow>
                 if error \<noteq> 0 then (- 1, gen2, ctx2)
                 else
                   (case RETURN_IF_FAIL w gen2 ctx2 Gen_map_close of
                      (failed, gen3, ctx3) \<Rightarrow>
                        if failed then (- 1, gen3, ctx3) else (0, gen3, ctx3))))"
| "generate_recursive w gen ctx (VUserInfo p) =
     (if VUserInfo p = null_value then
        (case RETURN_IF_FAIL w gen ctx Gen_null of
           (failed, gen1, ctx1) \<Rightarrow> if failed then (- 1, gen1, ctx1) else (0, gen1, ctx1))
      else (- 1, gen, ctx @ [''found non-serializable value'']))"
| "generate_recursive w gen ctx (VFunc f) =
     (- 1, gen, ctx @ [''found value of unknown type''])"
| "generate_array_loop w gen ctx [] = (0, gen, ctx)"
| "generate_array_loop w gen ctx (elem # rest) =
     (case generate_recursive w gen ctx elem of
        (error, gen1, ctx1) \<Rightarrow>
          if error \<noteq> 0 then (- 1, gen1, ctx1)
          else generate_array_loop w gen1 ctx1 rest)"
| "generate_hashmap_loop w gen ctx [] = (0, gen, ctx)"
| "generate_hashmap_loop w gen ctx ((key, val) # rest) =
     (case generate_recursive w gen ctx key of
        (error, gen1, ctx1) \<Rightarrow>
          if error \<noteq> 0 then (- 1, gen1, ctx1)
          else
            (case generate_recursive w gen1 ctx1 val of
               (error, gen2, ctx2) \<Rightarrow>
                 if error \<noteq> 0 then (- 1, gen2, ctx2)
                 else generate_hashmap_loop w gen2 ctx2 rest))"
  by pat_completeness auto
termination
  by (relation "measure (\<lambda>x. case x of
         Inl (w, gen, ctx, node) \<Rightarrow> size node
       | Inr (Inl (w, gen, ctx, array)) \<Rightarrow> size_list size array
       | Inr (Inr (w, gen, ctx, hm)) \<Rightarrow> size_list (size_prod size size) hm)") auto

text \<open>
  \<^verbatim>\<open>str->cstr\<close> is handed over as a C string: the Writer reads it up to its
  first NUL byte.
\<close>

definition cstr :: "string \<Rightarrow> string" where
  "cstr s = takeWhile (\<lambda>c. c \<noteq> CHR 0x00) s"

definition gen_set_bool_option ::
  "'g writer \<Rightarrow> 'g \<Rightarrow> yajl_gen_option \<Rightarrow> (spn_value \<times> spn_value) list \<Rightarrow> string \<Rightarrow> 'g" where
  "gen_set_bool_option w gen opt config name =
     (let optval = spn_hashmap_get_strkey config name in
      if spn_isbool optval then yajl_gen_config w gen opt (OptBool (spn_boolvalue optval))
      else gen)"

definition gen_set_string_option ::
  "'g writer \<Rightarrow> 'g \<Rightarrow> yajl_gen_option \<Rightarrow> (spn_value \<times> spn_value) list \<Rightarrow> string \<Rightarrow> 'g" where
  "gen_set_string_option w gen opt config name =
     (let optval = spn_hashmap_get_strkey config name in
      if spn_isstring optval
      then yajl_gen_config w gen opt (OptString (cstr (spn_stringvalue optval)))
      else gen)"

definition config_gen :: "'g writer \<Rightarrow> 'g \<Rightarrow> spn_value \<Rightarrow> abort + 'g" where
  "config_gen w gen config_obj =
     (case config_obj of
        VHashMap config \<Rightarrow>
          (let gen1 = gen_set_bool_option w gen yajl_gen_beautify config ''beautify'';
               gen2 = gen_set_string_option w gen1 yajl_gen_indent_string config ''indent''
           in Inr (gen_set_bool_option w gen2 yajl_gen_escape_solidus config ''escape_slash''))
      | _ \<Rightarrow> Inl (AssertionFailed ''spn_ishashmap(&config_obj)''))"

definition json_generate :: "'g writer \<Rightarrow> spn_value list \<Rightarrow> abort + call_result" where
  "json_generate w argv =
     (let argc = length argv in
      if argc < 1 \<or> argc > 2 then
        Inr \<lparr>rv = - 1, ret = None, ctx_errors = [''expecting 1 or 2 arguments''],
             released_values = []\<rparr>
      else if argc \<ge> 2 \<and> \<not> spn_ishashmap (argv ! 1) then
        Inr \<lparr>rv = - 2, ret = None, ctx_errors = [''2nd argument must be a config object''],
             released_values = []\<rparr>
      else
        case (if argc \<ge> 2 then config_gen w (yajl_gen_alloc w) (argv ! 1)
              else Inr (yajl_gen_alloc w)) of
          Inl a \<Rightarrow> Inl a
        | Inr gen \<Rightarrow>
            (case generate_recursive w gen [] (argv ! 0) of
               (error, gen1, ctx1) \<Rightarrow>
                 if error = 0 then
                   (case yajl_gen_get_buf w gen1 of
                      (status, str) \<Rightarrow>
                        if status = yajl_gen_status_ok then
                          Inr \<lparr>rv = error, ret = Some (VString str), ctx_errors = ctx1,
                               released_values = []\<rparr>
                        else
                          Inr \<lparr>rv = - 3, ret = None,
                               ctx_errors = ctx1 @ [''error generating JSON string''],
                               released_values = []\<rparr>)
                 else
                   Inr \<lparr>rv = error, ret = None, ctx_errors = ctx1, released_values = []\<rparr>))"

section \<open>The Lexer's ordering guarantee\<close>

text \<open>
  Modelled from the spec: the Lexer raises its events ordered and well nested (its
  code is not part of the bindings). The guarantee is the automaton of JSON's nesting:
  a stack that says, for each open container, whether it is an array, a map that
  expects a key (or its end), or a map that has read a key and expects the value; and
  a flag that says the top-level value is complete.
\<close>

datatype nesting = InArray | InMapKey | InMapValue

fun after_value :: "nesting list \<Rightarrow> nesting list" where
  "after_value (InMapValue # ns) = InMapKey # ns"
| "after_value ns = ns"

fun expects_value :: "bool \<times> nesting list \<Rightarrow> bool" where
  "expects_value (done, []) = (\<not> done)"
| "expects_value (done, InArray # ns) = True"
| "expects_value (done, InMapValue # ns) = True"
| "expects_value (done, InMapKey # ns) = False"

definition value_done :: "nesting list \<Rightarrow> bool \<times> nesting list" where
  "value_done ns = (ns = [], after_value ns)"

fun lexer_step :: "bool \<times> nesting list \<Rightarrow> event \<Rightarrow> (bool \<times> nesting list) option" where
  "lexer_step s EvStartArray =
     (if expects_value s then Some (False, InArray # snd s) else None)"
| "lexer_step s EvStartMap =
     (if expects_value s then Some (False, InMapKey # snd s) else None)"
| "lexer_step s (EvMapKey k) =
     (case snd s of InMapKey # ns \<Rightarrow> Some (False, InMapValue # ns) | _ \<Rightarrow> None)"
| "lexer_step s EvEndArray =
     (case snd s of InArray # ns \<Rightarrow> Some (value_done ns) | _ \<Rightarrow> None)"
| "lexer_step s EvEndMap =
     (case snd s of InMapKey # ns \<Rightarrow> Some (value_done ns) | _ \<Rightarrow> None)"
| "lexer_step s scalar =
     (if expects_value s then Some (value_done (snd s)) else None)"

fun lexer_steps :: "bool \<times> nesting list \<Rightarrow> event list \<Rightarrow> (bool \<times> nesting list) option" where
  "lexer_steps s [] = Some s"
| "lexer_steps s (e # es) =
     (case lexer_step s e of None \<Rightarrow> None | Some s' \<Rightarrow> lexer_steps s' es)"

text \<open>
  How a frame of the builder stands to the Lexer's view of the same container: an
  array frame and a map frame that expects a key carry no pending key, a map frame
  that expects a value carries the key as a string.
\<close>

fun frame_matches :: "nesting \<Rightarrow> stack_node \<Rightarrow> bool" where
  "frame_matches InArray node = (spn_isarray (node_value node) \<and> node_key node = spn_nilval)"
| "frame_matches InMapKey node = (spn_ishashmap (node_value node) \<and> node_key node = spn_nilval)"
| "frame_matches InMapValue node = (spn_ishashmap (node_value node) \<and> spn_isstring (node_key node))"

section \<open>The emitter's walk, flattened\<close>

text \<open>
  The spec gives the emitter as a depth-first walk with one case per variant. Its
  flattened form is the list of steps the walk takes on a value, in order: a call of
  the Writer, or the rejection of a value that cannot be serialised. Running a list of
  steps stops at the first call the Writer refuses and at the first rejection.
\<close>

datatype step = Call gen_call | Reject string

function emit_plan :: "spn_value \<Rightarrow> step list"
  and emit_plan_array :: "spn_value list \<Rightarrow> step list"
  and emit_plan_hashmap :: "(spn_value \<times> spn_value) list \<Rightarrow> step list"
where
  "emit_plan VNil = [Call Gen_null]"
| "emit_plan (VBool b) = [Call (Gen_bool b)]"
| "emit_plan (VInt i) = [Call (Gen_integer i)]"
| "emit_plan (VFloat d) = [Call (Gen_double d)]"
| "emit_plan (VString str) = [Call (Gen_string str)]"
| "emit_plan (VArray array) = Call Gen_array_open # emit_plan_array array @ [Call Gen_array_close]"
| "emit_plan (VHashMap hm) = Call Gen_map_open # emit_plan_hashmap hm @ [Call Gen_map_close]"
| "emit_plan (VUserInfo p) =
     (if p = AddrNullValue then [Call Gen_null] else [Reject ''found non-serializable value''])"
| "emit_plan (VFunc f) = [Reject ''found value of unknown type'']"
| "emit_plan_array [] = []"
| "emit_plan_array (elem # rest) = emit_plan elem @ emit_plan_array rest"
| "emit_plan_hashmap [] = []"
| "emit_plan_hashmap ((key, val) # rest) = emit_plan key @ emit_plan val @ emit_plan_hashmap rest"
  by pat_completeness auto
termination
  by (relation "measure (\<lambda>x. case x of
         Inl node \<Rightarrow> size node
       | Inr (Inl array) \<Rightarrow> size_list size array
       | Inr (Inr hm) \<Rightarrow> size_list (size_prod size size) hm)") auto

fun run_plan :: "'g writer \<Rightarrow> 'g \<Rightarrow> string list \<Rightarrow> step list \<Rightarrow> int \<times> 'g \<times> string list" where
  "run_plan w gen ctx [] = (0, gen, ctx)"
| "run_plan w gen ctx (Call c # rest) =
     (case yajl_gen w gen c of
        (status, gen') \<Rightarrow>
          if status = yajl_gen_status_ok then run_plan w gen' ctx rest
          else (- 1, gen', ctx @ [''YAJL error: '' @ call_text c]))"
| "run_plan w gen ctx (Reject msg # rest) = (- 1, gen, ctx @ [msg])"

section \<open>A Writer that records its calls\<close>

text \<open>
  A Writer to run the generator on: its handle is the list of the calls it has
  received, it answers each call with the status a given function chooses, it takes no
  notice of options, and its buffer is empty.
\<close>

definition logging_writer :: "(gen_call \<Rightarrow> yajl_gen_status) \<Rightarrow> gen_call list writer" where
  "logging_writer verdict =
     \<lparr>yajl_gen_alloc = [],
      yajl_gen_config = (\<lambda>gen opt val. gen),
      yajl_gen = (\<lambda>gen c. (verdict c, gen @ [c])),
      yajl_gen_get_buf = (\<lambda>gen. (yajl_gen_status_ok, []))\<rparr>"

text \<open>
  The same Writer with a buffer: the text is what a given function makes of the calls
  received.
\<close>

definition rendering_writer :: "(gen_call list \<Rightarrow> string) \<Rightarrow> gen_call list writer" where
  "rendering_writer render =
     \<lparr>yajl_gen_alloc = [],
      yajl_gen_config = (\<lambda>gen opt val. gen),
      yajl_gen = (\<lambda>gen c. (yajl_gen_status_ok, gen @ [c])),
      yajl_gen_get_buf = (\<lambda>gen. (yajl_gen_status_ok, render gen))\<rparr>"

section \<open>Generating and parsing again\<close>

text \<open>The calls of a list of steps, in order.\<close>

fun the_calls :: "step list \<Rightarrow> gen_call list" where
  "the_calls [] = []"
| "the_calls (Call c # rest) = c # the_calls rest"
| "the_calls (Reject msg # rest) = the_calls rest"

text \<open>
  Modelled from the spec: the Writer that turns calls into JSON text and the Lexer that
  turns the text into events are not part of the bindings, and the spec leaves the text
  to them. Their composition is the channel that hands every call the Writer received
  back as the matching event, in the same order: a scalar call as the scalar event with
  the same payload, an open or close call as the start or end event, and a string call
  as a key event where the enclosing map expects a key. The nesting stack says where a
  key is expected.
\<close>

fun lexer_events :: "nesting list \<Rightarrow> gen_call list \<Rightarrow> event list" where
  "lexer_events ns [] = []"
| "lexer_events ns (Gen_null # cs) = EvNull # lexer_events (after_value ns) cs"
| "lexer_events ns (Gen_bool b # cs) = EvBoolean b # lexer_events (after_value ns) cs"
| "lexer_events ns (Gen_integer i # cs) = EvInteger i # lexer_events (after_value ns) cs"
| "lexer_events ns (Gen_double d # cs) = EvDouble d # lexer_events (after_value ns) cs"
| "lexer_events ns (Gen_string s # cs) =
     (case ns of
        InMapKey # below \<Rightarrow> EvMapKey s # lexer_events (InMapValue # below) cs
      | _ \<Rightarrow> EvString s # lexer_events (after_value ns) cs)"
| "lexer_events ns (Gen_array_open # cs) = EvStartArray # lexer_events (InArray # ns) cs"
| "lexer_events ns (Gen_array_close # cs) = EvEndArray # lexer_events (after_value (tl ns)) cs"
| "lexer_events ns (Gen_map_open # cs) = EvStartMap # lexer_events (InMapKey # ns) cs"
| "lexer_events ns (Gen_map_close # cs) = EvEndMap # lexer_events (after_value (tl ns)) cs"

text \<open>
  A Document value of the spec's data model: built from the serialisable variants only
  (no function, no user info but the null value), the keys of every map strings and
  distinct, and no map holding nil as a value (setting nil deletes the key).
\<close>

function document :: "spn_value \<Rightarrow> bool"
  and document_array :: "spn_value list \<Rightarrow> bool"
  and document_hashmap :: "(spn_value \<times> spn_value) list \<Rightarrow> bool"
where
  "document VNil = True"
| "document (VBool b) = True"
| "document (VInt i) = True"
| "document (VFloat d) = True"
| "document (VString str) = True"
| "document (VArray array) = document_array array"
| "document (VHashMap hm) = (distinct (map fst hm) \<and> document_hashmap hm)"
| "document (VUserInfo p) = (p = AddrNullValue)"
| "document (VFunc f) = False"
| "document_array [] = True"
| "document_array (elem # rest) = (document elem \<and> document_array rest)"
| "document_hashmap [] = True"
| "document_hashmap ((key, val) # rest) =
     (spn_isstring key \<and> \<not> spn_isnil val \<and> document val \<and> document_hashmap rest)"
  by pat_completeness auto
termination
  by (relation "measure (\<lambda>x. case x of
         Inl node \<Rightarrow> size node
       | Inr (Inl array) \<Rightarrow> size_list size array
       | Inr (Inr hm) \<Rightarrow> size_list (size_prod size size) hm)") auto

text \<open>
  \<open>null_as parse_null node\<close> is \<open>node\<close> with nil and the null value, wherever
  they stand as values, replaced by what \<^verbatim>\<open>cb_null\<close> stores in that mode; a
  member of a map whose value becomes nil is dropped from the map, as setting nil
  deletes the key.
\<close>

function null_as :: "bool \<Rightarrow> spn_value \<Rightarrow> spn_value"
  and null_as_array :: "bool \<Rightarrow> spn_value list \<Rightarrow> spn_value list"
  and null_as_hashmap :: "bool \<Rightarrow> (spn_value \<times> spn_value) list \<Rightarrow> (spn_value \<times> spn_value) list"
where
  "null_as pn VNil = (if pn then null_value else spn_nilval)"
| "null_as pn (VBool b) = VBool b"
| "null_as pn (VInt i) = VInt i"
| "null_as pn (VFloat d) = VFloat d"
| "null_as pn (VString str) = VString str"
| "null_as pn (VArray array) = VArray (null_as_array pn array)"
| "null_as pn (VHashMap hm) = VHashMap (null_as_hashmap pn hm)"
| "null_as pn (VUserInfo p) =
     (if p = AddrNullValue then (if pn then null_value else spn_nilval) else VUserInfo p)"
| "null_as pn (VFunc f) = VFunc f"
| "null_as_array pn [] = []"
| "null_as_array pn (elem # rest) = null_as pn elem # null_as_array pn rest"
| "null_as_hashmap pn [] = []"
| "null_as_hashmap pn ((key, val) # rest) =
     (if spn_isnil (null_as pn val) then null_as_hashmap pn rest
      else (key, null_as pn val) # null_as_hashmap pn rest)"
  by pat_completeness auto
termination
  by (relation "measure (\<lambda>x. case x of
         Inl (pn, node) \<Rightarrow> size node
       | Inr (Inl (pn, array)) \<Rightarrow> size_list size array
       | Inr (Inr (pn, hm)) \<Rightarrow> size_list (size_prod size size) hm)") auto

text \<open>
  The events of a Document value: the start and end of each container around the
  events of its members, a key event before each member of a map.
\<close>

function value_events :: "spn_value \<Rightarrow> event list"
  and value_events_array :: "spn_value list \<Rightarrow> event list"
  and value_events_hashmap :: "(spn_value \<times> spn_value) list \<Rightarrow> event list"
where
  "value_events VNil = [EvNull]"
| "value_events (VBool b) = [EvBoolean b]"
| "value_events (VInt i) = [EvInteger i]"
| "value_events (VFloat d) = [EvDouble d]"
| "value_events (VString str) = [EvString str]"
| "value_events (VArray array) = EvStartArray # value_events_array array @ [EvEndArray]"
| "value_events (VHashMap hm) = EvStartMap # value_events_hashmap hm @ [EvEndMap]"
| "value_events (VUserInfo p) = [EvNull]"
| "value_events (VFunc f) = []"
| "value_events_array [] = []"
| "value_events_array (elem # rest) = value_events elem @ value_events_array rest"
| "value_events_hashmap [] = []"
| "value_events_hashmap ((key, val) # rest) =
     EvMapKey (spn_stringvalue key) # value_events val @ value_events_hashmap rest"
  by pat_completeness auto
termination
  by (relation "measure (\<lambda>x. case x of
         Inl node \<Rightarrow> size node
       | Inr (Inl array) \<Rightarrow> size_list size array
       | Inr (Inr hm) \<Rightarrow> size_list (size_prod size size) hm)") auto

section \<open>The host's map\<close>

lemma hashmap_put_keys:
  "map fst (hashmap_put hm k v) = (if k \<in> set (map fst hm) then map fst hm else map fst hm @ [k])"
  by (induction hm) force+

lemma hashmap_put_map_of:
  "map_of (hashmap_put hm k v) = (map_of hm)(k \<mapsto> v)"
  by (induction hm) auto

lemma hashmap_remove_filter:
  "hashmap_remove hm k = filter (\<lambda>kv. fst kv \<noteq> k) hm"
  by (induction hm) auto

lemma hashmap_remove_map_of:
  "map_of (hashmap_remove hm k) = (map_of hm)(k := None)"
  by (induction hm) auto

lemma hashmap_put_new:
  "k \<notin> fst ` set hm \<Longrightarrow> hashmap_put hm k v = hm @ [(k, v)]"
  by (induction hm) auto

lemma hashmap_remove_absent:
  "k \<notin> fst ` set hm \<Longrightarrow> hashmap_remove hm k = hm"
  by (induction hm) auto

lemma fold_spn_hashmap_set:
  "distinct (map fst kvs) \<Longrightarrow> fst ` set hm \<inter> fst ` set kvs = {} \<Longrightarrow>
   fold (\<lambda>(k, v) m. spn_hashmap_set m k v) kvs hm =
     hm @ filter (\<lambda>kv. \<not> spn_isnil (snd kv)) kvs"
proof (induction kvs arbitrary: hm)
  case Nil
  then show ?case by simp
next
  case (Cons kv kvs)
  obtain k v where kv: "kv = (k, v)" by (cases kv)
  with Cons.prems have new: "k \<notin> fst ` set hm" by auto
  show ?case
  proof (cases "spn_isnil v")
    case True
    have "fst ` set hm \<inter> fst ` set kvs = {}"
      using Cons.prems by auto
    with Cons.IH [of hm] Cons.prems kv new True show ?thesis
      by (simp add: spn_hashmap_set_def hashmap_remove_absent)
  next
    case False
    have "fst ` set (hm @ [(k, v)]) \<inter> fst ` set kvs = {}"
      using Cons.prems kv by auto
    with Cons.IH [of "hm @ [(k, v)]"] Cons.prems kv new False show ?thesis
      by (simp add: spn_hashmap_set_def hashmap_put_new)
  qed
qed




section \<open>Delivering events to the callbacks\<close>

lemma parser_callbacks_returns_1:
  "parser_callbacks e state = Inr (r, state') \<Longrightarrow> r = 1"
  by (cases e)
     (auto simp: cb_null_def cb_boolean_def cb_integer_def cb_double_def cb_string_def
        cb_start_map_def cb_map_key_def cb_end_map_def cb_start_array_def cb_end_array_def Let_def
        split: sum.splits list.splits if_splits prod.splits)

lemma yajl_deliver_own_status:
  "yajl_deliver es own state = Inr (status, state') \<Longrightarrow> status = own"
proof (induction es arbitrary: state)
  case Nil
  then show ?case by simp
next
  case (Cons e es)
  then show ?case
    by (auto split: sum.splits prod.splits if_splits dest: parser_callbacks_returns_1)
qed

lemma yajl_deliver_append:
  "yajl_deliver (es1 @ es2) own state =
     (case yajl_deliver es1 own state of
        Inl a \<Rightarrow> Inl a
      | Inr (status, state') \<Rightarrow> yajl_deliver es2 own state')"
proof (induction es1 arbitrary: state)
  case Nil
  then show ?case by simp
next
  case (Cons e es1)
  show ?case
  proof (cases "parser_callbacks e state")
    case (Inl a)
    then show ?thesis by simp
  next
    case (Inr p)
    then obtain r state' where p: "parser_callbacks e state = Inr (r, state')"
      by (cases p) auto
    then have "r = 1" by (rule parser_callbacks_returns_1)
    with p Cons.IH show ?thesis by simp
  qed
qed

lemma yajl_deliver_any_status:
  "yajl_deliver es own state = Inr (status, state') \<Longrightarrow>
   yajl_deliver es own' state = Inr (own', state')"
proof (induction es arbitrary: state)
  case Nil
  then show ?case by simp
next
  case (Cons e es)
  then show ?case
    by (auto split: sum.splits prod.splits if_splits dest: parser_callbacks_returns_1)
qed

section \<open>The driver on a run of the Lexer\<close>

lemma json_parse_run:
  assumes args: "argv = [VString s] \<and> hndl = yajl_alloc \<and> start = state_init
       \<or> argv = [VString s, VHashMap config]
           \<and> config_parser yajl_alloc state_init (VHashMap config) = Inr (hndl, start)"
    and lexer: "lx hndl s = run"
    and deliver: "yajl_deliver (parse_events run @ complete_events run)
               yajl_status_ok start = Inr (yajl_status_ok, state)"
  shows "json_parse lx argv =
     Inr (if parse_status run = yajl_status_ok \<and> complete_status run = yajl_status_ok
          then \<lparr>rv = 0, ret = Some (root state), ctx_errors = [],
                released_values = released state @ free_nodes (stack state)\<rparr>
          else \<lparr>rv = (if parse_status run \<noteq> yajl_status_ok then - 4 else - 5),
                ret = None,
                ctx_errors = [''error parsing JSON: '' @ error_string run],
                released_values = released state @ root state # free_nodes (stack state)\<rparr>)"
proof -
  from deliver obtain state1 where
    d1: "yajl_deliver (parse_events run) yajl_status_ok start = Inr (yajl_status_ok, state1)"
    and d2: "yajl_deliver (complete_events run) yajl_status_ok state1 = Inr (yajl_status_ok, state)"
    by (auto simp: yajl_deliver_append split: sum.splits prod.splits
        dest: yajl_deliver_own_status)
  have e1: "yajl_deliver (parse_events run) (parse_status run) start =
      Inr (parse_status run, state1)"
    using d1 by (rule yajl_deliver_any_status)
  have e2: "yajl_deliver (complete_events run) (complete_status run) state1 =
      Inr (complete_status run, state)"
    using d2 by (rule yajl_deliver_any_status)
  from args show ?thesis
  proof
    assume "argv = [VString s] \<and> hndl = yajl_alloc \<and> start = state_init"
    then show ?thesis
      using e1 e2 lexer by (simp add: json_parse_def error_message_to_spn_context_def Let_def state_free_def)
  next
    assume "argv = [VString s, VHashMap config]
           \<and> config_parser yajl_alloc state_init (VHashMap config) = Inr (hndl, start)"
    then show ?thesis
      using e1 e2 lexer by (simp add: json_parse_def error_message_to_spn_context_def Let_def state_free_def)
  qed
qed

lemma config_parser_eq:
  "config_parser hndl state (VHashMap config) =
     Inr (if spn_isbool (spn_hashmap_get_strkey config ''comment'')
          then yajl_config hndl yajl_allow_comments
                 (spn_boolvalue (spn_hashmap_get_strkey config ''comment''))
          else hndl,
          state\<lparr>explicit_null :=
            if spn_isbool (spn_hashmap_get_strkey config ''parse_null'')
            then spn_boolvalue (spn_hashmap_get_strkey config ''parse_null'')
            else explicit_null state\<rparr>)"
  by (simp add: config_parser_def parser_set_bool_option_def state_set_bool_option_def)

lemma config_gen_eq:
  "config_gen w gen (VHashMap config) =
     Inr (let gen1 = (if spn_isbool (spn_hashmap_get_strkey config ''beautify'')
                      then yajl_gen_config w gen yajl_gen_beautify
                             (OptBool (spn_boolvalue (spn_hashmap_get_strkey config ''beautify'')))
                      else gen);
              gen2 = (if spn_isstring (spn_hashmap_get_strkey config ''indent'')
                      then yajl_gen_config w gen1 yajl_gen_indent_string
                             (OptString (cstr (spn_stringvalue (spn_hashmap_get_strkey config ''indent''))))
                      else gen1)
          in if spn_isbool (spn_hashmap_get_strkey config ''escape_slash'')
             then yajl_gen_config w gen2 yajl_gen_escape_solidus
                    (OptBool (spn_boolvalue (spn_hashmap_get_strkey config ''escape_slash'')))
             else gen2)"
  by (simp add: config_gen_def gen_set_bool_option_def gen_set_string_option_def Let_def)

lemma json_parse_config:
  "json_parse lx [str, VHashMap config] =
     (if \<not> spn_isstring str then
        Inr \<lparr>rv = - 2, ret = None, ctx_errors = [''1st argument must be a string''],
             released_values = []\<rparr>
      else
        case config_parser yajl_alloc state_init (VHashMap config) of
          Inl a \<Rightarrow> Inl a
        | Inr (yajl_hndl, start) \<Rightarrow>
            let run = lx yajl_hndl (spn_stringvalue str) in
            (case yajl_deliver (parse_events run) (parse_status run) start of
               Inl a \<Rightarrow> Inl a
             | Inr (status1, state1) \<Rightarrow>
                 let rv1 = (if status1 \<noteq> yajl_status_ok then - 4 else 0) in
                 (case yajl_deliver (complete_events run) (complete_status run) state1 of
                    Inl a \<Rightarrow> Inl a
                  | Inr (status2, state2) \<Rightarrow>
                      let rv2 = (if rv1 = 0 \<and> status2 \<noteq> yajl_status_ok then - 5 else rv1) in
                      if rv2 = 0 then
                        Inr \<lparr>rv = rv2, ret = Some (root state2), ctx_errors = [],
                             released_values = released (state_free state2)\<rparr>
                      else
                        Inr \<lparr>rv = rv2, ret = None,
                             ctx_errors = error_message_to_spn_context run [],
                             released_values =
                               released (state_free
                                 (state2\<lparr>released := released state2 @ [root state2]\<rparr>))\<rparr>)))"
  by (simp add: json_parse_def error_message_to_spn_context_def)

lemma json_parse_default:
  "json_parse lx [str] =
     (if \<not> spn_isstring str then
        Inr \<lparr>rv = - 2, ret = None, ctx_errors = [''1st argument must be a string''],
             released_values = []\<rparr>
      else
        let run = lx yajl_alloc (spn_stringvalue str) in
        (case yajl_deliver (parse_events run) (parse_status run) state_init of
           Inl a \<Rightarrow> Inl a
         | Inr (status1, state1) \<Rightarrow>
             let rv1 = (if status1 \<noteq> yajl_status_ok then - 4 else 0) in
             (case yajl_deliver (complete_events run) (complete_status run) state1 of
                Inl a \<Rightarrow> Inl a
              | Inr (status2, state2) \<Rightarrow>
                  let rv2 = (if rv1 = 0 \<and> status2 \<noteq> yajl_status_ok then - 5 else rv1) in
                  if rv2 = 0 then
                    Inr \<lparr>rv = rv2, ret = Some (root state2), ctx_errors = [],
                         released_values = released (state_free state2)\<rparr>
                  else
                    Inr \<lparr>rv = rv2, ret = None,
                         ctx_errors = error_message_to_spn_context run [],
                         released_values =
                           released (state_free
                             (state2\<lparr>released := released state2 @ [root state2]\<rparr>))\<rparr>)))"
  by (simp add: json_parse_def error_message_to_spn_context_def)



lemma json_parse_failure_origin:
  assumes "json_parse lx argv = Inr res" and "rv res = - 4 \<or> rv res = - 5"
  shows "\<exists>hndl. parse_status (lx hndl (spn_stringvalue (argv ! 0))) \<noteq> yajl_status_ok
       \<or> complete_status (lx hndl (spn_stringvalue (argv ! 0))) \<noteq> yajl_status_ok"
proof -
  have core: "\<exists>hndl. parse_status (lx hndl s) \<noteq> yajl_status_ok
       \<or> complete_status (lx hndl s) \<noteq> yajl_status_ok"
    if "(let run = lx h s in
            (case yajl_deliver (parse_events run) (parse_status run) start of
               Inl a \<Rightarrow> Inl a
             | Inr (status1, state1) \<Rightarrow>
                 let rv1 = (if status1 \<noteq> yajl_status_ok then - 4 else 0) in
                 (case yajl_deliver (complete_events run) (complete_status run) state1 of
                    Inl a \<Rightarrow> Inl a
                  | Inr (status2, state2) \<Rightarrow>
                      let rv2 = (if rv1 = 0 \<and> status2 \<noteq> yajl_status_ok then - 5 else rv1) in
                      if rv2 = 0 then
                        Inr \<lparr>rv = rv2, ret = Some (root state2), ctx_errors = [],
                             released_values = released (state_free state2)\<rparr>
                      else
                        Inr \<lparr>rv = rv2, ret = None,
                             ctx_errors = error_message_to_spn_context run [],
                             released_values =
                               released (state_free
                                 (state2\<lparr>released := released state2 @ [root state2]\<rparr>))\<rparr>)))
          = (Inr res :: abort + call_result)" for h s start
  proof -
    from that obtain status1 state1 status2 state2 where
      d1: "yajl_deliver (parse_events (lx h s)) (parse_status (lx h s)) start = Inr (status1, state1)"
      and d2: "yajl_deliver (complete_events (lx h s)) (complete_status (lx h s)) state1 =
          Inr (status2, state2)"
      by (auto simp: Let_def split: sum.splits prod.splits)
    from d1 have s1: "status1 = parse_status (lx h s)" by (rule yajl_deliver_own_status)
    from d2 have s2: "status2 = complete_status (lx h s)" by (rule yajl_deliver_own_status)
    from that d1 d2 s1 s2 assms(2) show ?thesis
      by (auto simp: Let_def split: if_splits)
  qed
  have "\<not> (length argv < 1 \<or> length argv > 2)"
  proof
    assume "length argv < 1 \<or> length argv > 2"
    then have "json_parse lx argv =
        Inr \<lparr>rv = - 1, ret = None, ctx_errors = [''expecting 1 or 2 arguments''],
             released_values = []\<rparr>"
      by (simp add: json_parse_def error_message_to_spn_context_def)
    with assms show False by auto
  qed
  then have len: "length argv = 1 \<or> length argv = 2" by arith
  then show ?thesis
  proof
    assume "length argv = 1"
    then obtain a where "argv = [a]" by (cases argv) auto
    with assms show ?thesis
      using core [of yajl_alloc "spn_stringvalue a" state_init]
      by (auto simp: json_parse_default split: if_splits)
  next
    assume "length argv = 2"
    then obtain a b where ab: "argv = [a, b]"
      by (cases argv; cases "tl argv") auto
    show ?thesis
    proof (cases b)
      case (VHashMap config)
      with ab assms show ?thesis
        using core [of _ "spn_stringvalue a"]
        by (auto simp: json_parse_config config_parser_eq split: if_splits)
    qed (use ab assms in \<open>auto simp: json_parse_def error_message_to_spn_context_def split: if_splits\<close>)
  qed
qed

lemma config_parser_stack:
  "config_parser hndl state (VHashMap config) = Inr (hndl', state') \<Longrightarrow> stack state' = stack state"
  by (auto simp: config_parser_def)

lemma free_nodes_set:
  "set (free_nodes nodes) = node_key ` set nodes \<union> node_value ` set nodes"
  by (induction nodes) auto

section \<open>The builder on well-nested events\<close>

lemma set_value_matches:
  assumes m: "list_all2 frame_matches ns (stack state)"
    and ev: "expects_value (d, ns)"
  shows "\<exists>state'. set_value state v = Inr state'
           \<and> list_all2 frame_matches (after_value ns) (stack state')
           \<and> explicit_null state' = explicit_null state"
proof (cases ns)
  case Nil
  with m show ?thesis by (simp add: set_value_def)
next
  case (Cons n ns')
  with m obtain node below where st: "stack state = node # below"
    and fm: "frame_matches n node" and rest: "list_all2 frame_matches ns' below"
    by (auto simp: list_all2_Cons1)
  show ?thesis
  proof (cases n)
    case InArray
    with fm obtain array where "node_value node = VArray array"
      by (cases "node_value node") auto
    with InArray Cons st fm rest show ?thesis
      by (simp add: set_value_def)
  next
    case InMapKey
    with Cons ev show ?thesis by simp
  next
    case InMapValue
    with fm obtain hm where "node_value node = VHashMap hm"
      by (cases "node_value node") auto
    with InMapValue Cons st fm rest show ?thesis
      by (simp add: set_value_def)
  qed
qed

lemma after_value_parents:
  "InMapKey \<notin> set (tl xs) \<Longrightarrow> InMapKey \<notin> set (tl (after_value xs))"
  by (cases xs rule: after_value.cases) auto

lemma expects_value_parents:
  "expects_value (d, ns) \<Longrightarrow> InMapKey \<notin> set (tl ns) \<Longrightarrow> InMapKey \<notin> set ns"
  by (cases "(d, ns)" rule: expects_value.cases) auto

lemma lexer_step_parents:
  assumes wf: "InMapKey \<notin> set (tl ns)" and step: "lexer_step (d, ns) e = Some (d', ns')"
  shows "InMapKey \<notin> set (tl ns')"
proof -
  have scalar: ?thesis if "expects_value (d, ns)" and "ns' = after_value ns"
    using that wf by (simp add: after_value_parents)
  have pops: ?thesis if "ns = n # below" and "ns' = after_value below" for n below
  proof -
    from wf that(1) have "InMapKey \<notin> set (tl below)"
      by (cases below) auto
    with that(2) show ?thesis by (simp add: after_value_parents)
  qed
  show ?thesis
  proof (cases e)
    case EvNull
    with step scalar show ?thesis by (simp add: value_done_def split: if_splits)
  next
    case (EvBoolean b)
    with step scalar show ?thesis by (simp add: value_done_def split: if_splits)
  next
    case (EvInteger i)
    with step scalar show ?thesis by (simp add: value_done_def split: if_splits)
  next
    case (EvDouble x)
    with step scalar show ?thesis by (simp add: value_done_def split: if_splits)
  next
    case (EvString x)
    with step scalar show ?thesis by (simp add: value_done_def split: if_splits)
  next
    case EvStartMap
    with step wf show ?thesis by (auto split: if_splits dest: expects_value_parents)
  next
    case (EvMapKey k)
    with step wf show ?thesis by (auto split: list.splits nesting.splits)
  next
    case EvEndMap
    with step pops show ?thesis
      by (auto simp: value_done_def split: list.splits nesting.splits)
  next
    case EvStartArray
    with step wf show ?thesis by (auto split: if_splits dest: expects_value_parents)
  next
    case EvEndArray
    with step pops show ?thesis
      by (auto simp: value_done_def split: list.splits nesting.splits)
  qed
qed

lemma callback_matches:
  assumes m: "list_all2 frame_matches ns (stack state)"
    and wf: "InMapKey \<notin> set (tl ns)"
    and step: "lexer_step (d, ns) e = Some (d', ns')"
  shows "\<exists>state'. parser_callbacks e state = Inr (1, state')
           \<and> list_all2 frame_matches ns' (stack state')
           \<and> explicit_null state' = explicit_null state"
proof -
  have scalar: "\<exists>state'. set_value state v = Inr state'
           \<and> list_all2 frame_matches ns' (stack state')
           \<and> explicit_null state' = explicit_null state"
    if "expects_value (d, ns)" and "ns' = after_value ns" for v
    using set_value_matches [OF m that(1)] that(2) by simp
  have closing: "\<exists>state'. (case state_pop state of
        Inl a \<Rightarrow> Inl a
      | Inr (v, state1) \<Rightarrow>
          (case set_value state1 v of Inl a \<Rightarrow> Inl a | Inr state2 \<Rightarrow> Inr (1, state2))) = Inr (1::int, state')
           \<and> list_all2 frame_matches ns' (stack state')
           \<and> explicit_null state' = explicit_null state"
    if ns: "ns = n # below" and n: "n = InArray \<or> n = InMapKey" and ns': "ns' = after_value below" for n below
  proof -
    from m ns obtain node nodes where st: "stack state = node # nodes"
      and fm: "frame_matches n node" and rest: "list_all2 frame_matches below nodes"
      by (auto simp: list_all2_Cons1)
    from n fm have k: "node_key node = VNil" by (auto simp: spn_nilval_def)
    have ev: "expects_value (False, below)"
      using wf ns by (cases "(False, below)" rule: expects_value.cases) auto
    have "list_all2 frame_matches below (stack (state\<lparr>stack := nodes\<rparr>))"
      using rest by simp
    from set_value_matches [OF this ev, of "node_value node"] ns' st k
    show ?thesis by (auto simp: state_pop_def)
  qed
  show ?thesis
  proof (cases e)
    case EvNull
    with step scalar [of "if explicit_null state then null_value else spn_nilval"]
    show ?thesis by (auto simp: cb_null_def value_done_def split: if_splits)
  next
    case (EvBoolean b)
    with step scalar [of "VBool b"]
    show ?thesis by (auto simp: cb_boolean_def value_done_def split: if_splits)
  next
    case (EvInteger i)
    with step scalar [of "VInt i"]
    show ?thesis by (auto simp: cb_integer_def value_done_def split: if_splits)
  next
    case (EvDouble x)
    with step scalar [of "VFloat x"]
    show ?thesis by (auto simp: cb_double_def value_done_def split: if_splits)
  next
    case (EvString x)
    with step scalar [of "VString x"]
    show ?thesis by (auto simp: cb_string_def value_done_def split: if_splits)
  next
    case EvStartMap
    with step m show ?thesis
      by (auto simp: cb_start_map_def state_push_def split: if_splits)
  next
    case (EvMapKey k)
    with step m show ?thesis
      by (auto simp: cb_map_key_def list_all2_Cons1 spn_nilval_def
          split: list.splits nesting.splits)
  next
    case EvEndMap
    with step closing show ?thesis
      by (auto simp: cb_end_map_def value_done_def split: list.splits nesting.splits)
  next
    case EvStartArray
    with step m show ?thesis
      by (auto simp: cb_start_array_def state_push_def split: if_splits)
  next
    case EvEndArray
    with step closing show ?thesis
      by (auto simp: cb_end_array_def value_done_def split: list.splits nesting.splits)
  qed
qed

lemma deliver_matches:
  assumes "list_all2 frame_matches ns (stack state)"
    and "InMapKey \<notin> set (tl ns)"
    and "lexer_steps (d, ns) es = Some (d', ns')"
  shows "\<exists>state'. yajl_deliver es own state = Inr (own, state')
           \<and> list_all2 frame_matches ns' (stack state')
           \<and> InMapKey \<notin> set (tl ns')
           \<and> explicit_null state' = explicit_null state"
  using assms
proof (induction es arbitrary: d ns state)
  case Nil
  then show ?case by simp
next
  case (Cons e es)
  from Cons.prems(3) obtain d1 ns1 where s1: "lexer_step (d, ns) e = Some (d1, ns1)"
    and rest: "lexer_steps (d1, ns1) es = Some (d', ns')"
    by (auto split: option.splits)
  from callback_matches [OF Cons.prems(1,2) s1] obtain state1 where
    cb: "parser_callbacks e state = Inr (1, state1)"
    and m1: "list_all2 frame_matches ns1 (stack state1)"
    and en: "explicit_null state1 = explicit_null state" by blast
  from Cons.IH [OF m1 lexer_step_parents [OF Cons.prems(2) s1] rest] en cb show ?case by auto
qed

lemma deliver_from_init:
  assumes "lexer_steps (False, []) es = Some (d, ns)" and "stack start = []"
  shows "\<exists>state. yajl_deliver es own start = Inr (own, state)
           \<and> list_all2 frame_matches ns (stack state)
           \<and> explicit_null state = explicit_null start"
proof -
  have "list_all2 frame_matches [] (stack start)" using assms(2) by simp
  from deliver_matches [OF this _ assms(1), of own] show ?thesis by auto
qed

lemma frame_matches_key:
  "frame_matches n node \<Longrightarrow>
   (node_key node \<noteq> spn_nilval) = (n = InMapValue)
   \<and> (node_key node = spn_nilval \<or> spn_isstring (node_key node))"
  by (cases n) (auto simp: spn_nilval_def)

section \<open>The generator as a run of its steps\<close>

lemma run_plan_append:
  "run_plan w gen ctx (xs @ ys) =
     (case run_plan w gen ctx xs of
        (error, gen', ctx') \<Rightarrow> if error \<noteq> 0 then (- 1, gen', ctx') else run_plan w gen' ctx' ys)"
proof (induction xs arbitrary: gen ctx)
  case Nil
  then show ?case by simp
next
  case (Cons x xs)
  then show ?case
    by (cases x) (simp_all split: prod.splits)
qed

lemma run_plan_call:
  "run_plan w gen ctx [Call c] =
     (case RETURN_IF_FAIL w gen ctx c of
        (failed, gen1, ctx1) \<Rightarrow> if failed then (- 1, gen1, ctx1) else (0, gen1, ctx1))"
  by (simp add: RETURN_IF_FAIL_def split: prod.splits)

lemma run_plan_Call_Cons:
  "run_plan w gen ctx (Call c # rest) =
     (case RETURN_IF_FAIL w gen ctx c of
        (failed, gen1, ctx1) \<Rightarrow> if failed then (- 1, gen1, ctx1) else run_plan w gen1 ctx1 rest)"
  by (simp add: RETURN_IF_FAIL_def split: prod.splits)

lemma generate_is_run_plan:
  "generate_recursive w gen ctx node = run_plan w gen ctx (emit_plan node)"
  "generate_array_loop w gen ctx array = run_plan w gen ctx (emit_plan_array array)"
  "generate_hashmap_loop w gen ctx hm = run_plan w gen ctx (emit_plan_hashmap hm)"
proof (induction w gen ctx node and w gen ctx array and w gen ctx hm
    rule: generate_recursive_generate_array_loop_generate_hashmap_loop.induct)
  case (1 w gen ctx)
  show ?case by (simp add: run_plan_call del: run_plan.simps split: prod.splits)
next
  case (2 w gen ctx b)
  show ?case by (simp add: run_plan_call del: run_plan.simps split: prod.splits)
next
  case (3 w gen ctx i)
  show ?case by (simp add: run_plan_call del: run_plan.simps split: prod.splits)
next
  case (4 w gen ctx d)
  show ?case by (simp add: run_plan_call del: run_plan.simps split: prod.splits)
next
  case (5 w gen ctx str)
  show ?case by (simp add: run_plan_call del: run_plan.simps split: prod.splits)
next
  case (6 w gen ctx array)
  show ?case
  proof (cases "RETURN_IF_FAIL w gen ctx Gen_array_open")
    case (fields failed gen1 ctx1)
    show ?thesis
    proof (cases failed)
      case True
      with fields show ?thesis
        by (simp add: run_plan_Call_Cons del: run_plan.simps)
    next
      case False
      with fields 6 [of failed "(gen1, ctx1)" gen1 ctx1]
      show ?thesis
        by (simp del: run_plan.simps
            add: run_plan_Call_Cons run_plan_append run_plan_call run_plan.simps(1)
            split: prod.splits)
    qed
  qed
next
  case (7 w gen ctx hm)
  show ?case
  proof (cases "RETURN_IF_FAIL w gen ctx Gen_map_open")
    case (fields failed gen1 ctx1)
    show ?thesis
    proof (cases failed)
      case True
      with fields show ?thesis
        by (simp add: run_plan_Call_Cons del: run_plan.simps)
    next
      case False
      with fields 7 [of failed "(gen1, ctx1)" gen1 ctx1]
      show ?thesis
        by (simp del: run_plan.simps
            add: run_plan_Call_Cons run_plan_append run_plan_call run_plan.simps(1)
            split: prod.splits)
    qed
  qed
next
  case (8 w gen ctx p)
  show ?case by (simp del: run_plan.simps add: run_plan_call null_value_def run_plan.simps(3) split: prod.splits)
next
  case (9 w gen ctx f)
  show ?case by simp
next
  case (10 w gen ctx)
  show ?case by simp
next
  case (11 w gen ctx elem rest)
  show ?case
  proof (cases "generate_recursive w gen ctx elem")
    case (fields error gen1 ctx1)
    with 11 show ?thesis
      by (simp add: run_plan_append split: prod.splits)
  qed
next
  case (12 w gen ctx)
  show ?case by simp
next
  case (13 w gen ctx key val rest)
  show ?case
  proof (cases "generate_recursive w gen ctx key")
    case k: (fields error gen1 ctx1)
    show ?thesis
    proof (cases "error = 0")
      case False
      with k 13(1) show ?thesis by (simp add: run_plan_append)
    next
      case True
      show ?thesis
      proof (cases "generate_recursive w gen1 ctx1 val")
        case v: (fields error2 gen2 ctx2)
        from 13(2) [of error "(gen1, ctx1)" gen1 ctx1] k True
        have vplan: "generate_recursive w gen1 ctx1 val = run_plan w gen1 ctx1 (emit_plan val)"
          by simp
        show ?thesis
        proof (cases "error2 = 0")
          case False
          with k True v vplan 13(1) show ?thesis by (simp add: run_plan_append)
        next
          case e2: True
          from 13(3) [of error "(gen1, ctx1)" gen1 ctx1 error2 "(gen2, ctx2)" gen2 ctx2] k True v e2
          have "generate_hashmap_loop w gen2 ctx2 rest = run_plan w gen2 ctx2 (emit_plan_hashmap rest)"
            by simp
          with k True v vplan e2 13(1) show ?thesis by (simp add: run_plan_append)
        qed
      qed
    qed
  qed
qed

lemma run_plan_errors:
  "run_plan w gen ctx plan = (error, gen', ctx') \<Longrightarrow>
   error = 0 \<and> ctx' = ctx \<or> error = - 1 \<and> (\<exists>msg. ctx' = ctx @ [msg])"
proof (induction plan arbitrary: gen)
  case Nil
  then show ?case by simp
next
  case (Cons x plan)
  then show ?case
    by (cases x) (auto split: prod.splits if_splits)
qed

lemma json_generate_outcome:
  assumes "json_generate w argv = Inr res"
  shows "(rv res = 0 \<longrightarrow> ctx_errors res = [] \<and> (\<exists>str. ret res = Some (VString str)))
     \<and> (rv res \<noteq> 0 \<longrightarrow> ret res = None \<and> length (ctx_errors res) = 1)"
proof -
  have walk: "(rv r = 0 \<longrightarrow> ctx_errors r = [] \<and> (\<exists>str. ret r = Some (VString str)))
     \<and> (rv r \<noteq> 0 \<longrightarrow> ret r = None \<and> length (ctx_errors r) = 1)"
    if "(case generate_recursive w gen [] node of
               (error, gen1, ctx1) \<Rightarrow>
                 if error = 0 then
                   (case yajl_gen_get_buf w gen1 of
                      (status, str) \<Rightarrow>
                        if status = yajl_gen_status_ok then
                          Inr \<lparr>rv = error, ret = Some (VString str), ctx_errors = ctx1,
                               released_values = []\<rparr>
                        else
                          Inr \<lparr>rv = - 3, ret = None,
                               ctx_errors = ctx1 @ [''error generating JSON string''],
                               released_values = []\<rparr>)
                 else
                   Inr \<lparr>rv = error, ret = None, ctx_errors = ctx1, released_values = []\<rparr>)
        = (Inr r :: abort + call_result)" for gen node r
  proof (cases "generate_recursive w gen [] node")
    case (fields error gen1 ctx1)
    then have "run_plan w gen [] (emit_plan node) = (error, gen1, ctx1)"
      by (simp add: generate_is_run_plan)
    from run_plan_errors [OF this] fields that show ?thesis
      by (auto split: if_splits prod.splits)
  qed
  from assms walk show ?thesis
    by (auto simp: json_generate_def Let_def split: if_splits sum.splits)
qed

lemma json_generate_config:
  "json_generate w [node, VHashMap config] =
     (case config_gen w (yajl_gen_alloc w) (VHashMap config) of
          Inl a \<Rightarrow> Inl a
        | Inr gen \<Rightarrow>
            (case generate_recursive w gen [] node of
               (error, gen1, ctx1) \<Rightarrow>
                 if error = 0 then
                   (case yajl_gen_get_buf w gen1 of
                      (status, str) \<Rightarrow>
                        if status = yajl_gen_status_ok then
                          Inr \<lparr>rv = error, ret = Some (VString str), ctx_errors = ctx1,
                               released_values = []\<rparr>
                        else
                          Inr \<lparr>rv = - 3, ret = None,
                               ctx_errors = ctx1 @ [''error generating JSON string''],
                               released_values = []\<rparr>)
                 else
                   Inr \<lparr>rv = error, ret = None, ctx_errors = ctx1, released_values = []\<rparr>))"
  by (simp add: json_generate_def split: sum.splits)

lemma json_generate_default:
  "json_generate w [node] =
            (case generate_recursive w (yajl_gen_alloc w) [] node of
               (error, gen1, ctx1) \<Rightarrow>
                 if error = 0 then
                   (case yajl_gen_get_buf w gen1 of
                      (status, str) \<Rightarrow>
                        if status = yajl_gen_status_ok then
                          Inr \<lparr>rv = error, ret = Some (VString str), ctx_errors = ctx1,
                               released_values = []\<rparr>
                        else
                          Inr \<lparr>rv = - 3, ret = None,
                               ctx_errors = ctx1 @ [''error generating JSON string''],
                               released_values = []\<rparr>)
                 else
                   Inr \<lparr>rv = error, ret = None, ctx_errors = ctx1, released_values = []\<rparr>)"
  by (simp add: json_generate_def)



lemma json_generate_walk:
  assumes args: "argv = [node] \<and> gen0 = yajl_gen_alloc w
       \<or> argv = [node, VHashMap config]
           \<and> config_gen w (yajl_gen_alloc w) (VHashMap config) = Inr gen0"
    and walk: "generate_recursive w gen0 [] node = (error, gen1, ctx1)"
  shows "json_generate w argv =
     Inr (if error = 0 then
            (case yajl_gen_get_buf w gen1 of
               (status, str) \<Rightarrow>
                 if status = yajl_gen_status_ok then
                   \<lparr>rv = 0, ret = Some (VString str), ctx_errors = ctx1, released_values = []\<rparr>
                 else
                   \<lparr>rv = - 3, ret = None,
                    ctx_errors = ctx1 @ [''error generating JSON string''],
                    released_values = []\<rparr>)
          else \<lparr>rv = error, ret = None, ctx_errors = ctx1, released_values = []\<rparr>)"
  using args
proof
  assume "argv = [node] \<and> gen0 = yajl_gen_alloc w"
  with walk show ?thesis
    by (simp add: json_generate_default split: prod.splits)
next
  assume "argv = [node, VHashMap config]
           \<and> config_gen w (yajl_gen_alloc w) (VHashMap config) = Inr gen0"
  with walk show ?thesis
    by (simp add: json_generate_config split: prod.splits)
qed

lemma emit_plan_hashmap_strings:
  "\<forall>kv \<in> set hm. spn_isstring (fst kv) \<Longrightarrow>
   emit_plan_hashmap hm =
     concat (map (\<lambda>(k, v). Call (Gen_string (spn_stringvalue k)) # emit_plan v) hm)"
proof (induction hm)
  case Nil
  then show ?case by simp
next
  case (Cons kv hm)
  obtain k v where kv: "kv = (k, v)" by (cases kv)
  with Cons.prems obtain s where "k = VString s" by (cases k) auto
  with kv Cons show ?case by simp
qed

section \<open>Generating and parsing again: the two halves\<close>

lemma the_calls_append: "the_calls (xs @ ys) = the_calls xs @ the_calls ys"
  by (induction xs rule: the_calls.induct) auto

lemma lexer_events_value:
  "document node \<longrightarrow> (\<forall>ns rest. (\<forall>below. ns \<noteq> InMapKey # below) \<longrightarrow>
     lexer_events ns (the_calls (emit_plan node) @ rest) =
       value_events node @ lexer_events (after_value ns) rest)"
  "document_array array \<longrightarrow> (\<forall>ns rest.
     lexer_events (InArray # ns) (the_calls (emit_plan_array array) @ rest) =
       value_events_array array @ lexer_events (InArray # ns) rest)"
  "document_hashmap hm \<longrightarrow> (\<forall>ns rest.
     lexer_events (InMapKey # ns) (the_calls (emit_plan_hashmap hm) @ rest) =
       value_events_hashmap hm @ lexer_events (InMapKey # ns) rest)"
proof (induction node and array and hm rule: emit_plan_emit_plan_array_emit_plan_hashmap.induct)
  case 1
  show ?case by simp
next
  case (2 b)
  show ?case by simp
next
  case (3 i)
  show ?case by simp
next
  case (4 d)
  show ?case by simp
next
  case (5 str)
  show ?case by (auto split: list.splits nesting.splits)
next
  case (6 array)
  then show ?case by (simp add: the_calls_append)
next
  case (7 hm)
  then show ?case by (simp add: the_calls_append)
next
  case (8 p)
  show ?case by simp
next
  case (9 f)
  show ?case by simp
next
  case 10
  show ?case by simp
next
  case (11 elem rest)
  then show ?case by (simp add: the_calls_append)
next
  case 12
  show ?case by simp
next
  case (13 key val rest)
  show ?case
  proof (intro impI allI)
    fix ns rest'
    assume doc: "document_hashmap ((key, val) # rest)"
    then obtain s where key: "key = VString s" by (cases key) auto
    from doc 13 have
      v: "\<And>ns r. (\<forall>below. ns \<noteq> InMapKey # below) \<Longrightarrow>
          lexer_events ns (the_calls (emit_plan val) @ r) =
            value_events val @ lexer_events (after_value ns) r"
      and r: "\<And>ns r. lexer_events (InMapKey # ns) (the_calls (emit_plan_hashmap rest) @ r) =
          value_events_hashmap rest @ lexer_events (InMapKey # ns) r"
      by auto
    show "lexer_events (InMapKey # ns) (the_calls (emit_plan_hashmap ((key, val) # rest)) @ rest') =
       value_events_hashmap ((key, val) # rest) @ lexer_events (InMapKey # ns) rest'"
      using key v [of "InMapValue # ns"] r [of ns rest']
      by (simp add: the_calls_append)
  qed
qed

lemma document_no_reject:
  "document node \<longrightarrow> (\<forall>msg. Reject msg \<notin> set (emit_plan node))"
  "document_array array \<longrightarrow> (\<forall>msg. Reject msg \<notin> set (emit_plan_array array))"
  "document_hashmap hm \<longrightarrow> (\<forall>msg. Reject msg \<notin> set (emit_plan_hashmap hm))"
proof (induction node and array and hm rule: emit_plan_emit_plan_array_emit_plan_hashmap.induct)
  case (13 key val rest)
  show ?case
  proof
    assume doc: "document_hashmap ((key, val) # rest)"
    then obtain s where key: "key = VString s" by (cases key) auto
    with doc 13 show "\<forall>msg. Reject msg \<notin> set (emit_plan_hashmap ((key, val) # rest))"
      by simp
  qed
qed simp_all

lemma run_plan_logging:
  "\<forall>msg. Reject msg \<notin> set plan \<Longrightarrow>
   run_plan (logging_writer (\<lambda>c. yajl_gen_status_ok)) gen ctx plan = (0, gen @ the_calls plan, ctx)"
proof (induction plan arbitrary: gen)
  case Nil
  then show ?case by simp
next
  case (Cons x plan)
  then show ?case
    by (cases x) (auto simp: logging_writer_def)
qed

lemma set_value_same_frames:
  assumes "root state' = root state" and "stack state' = stack state"
    and "set_value state v = Inr state1"
  shows "\<exists>state1'. set_value state' v = Inr state1' \<and> root state1' = root state1
     \<and> stack state1' = stack state1 \<and> explicit_null state1' = explicit_null state'"
  using assms
  by (auto simp: set_value_def split: list.splits spn_value.splits if_splits)

lemma deliver_scalar:
  assumes cb: "parser_callbacks e state =
      (case set_value state v of Inl a \<Rightarrow> Inl a | Inr state' \<Rightarrow> Inr (1, state'))"
    and att: "set_value state v = Inr state1"
    and pn: "explicit_null state = pn"
  shows "\<exists>state2. yajl_deliver [e] own state = Inr (own, state2) \<and> root state2 = root state1
     \<and> stack state2 = stack state1 \<and> explicit_null state2 = pn"
proof -
  from att pn have "explicit_null state1 = pn"
    by (auto simp: set_value_def split: list.splits spn_value.splits if_splits)
  with cb att show ?thesis by simp
qed

lemma deliver_container:
  assumes pn: "explicit_null state = pn"
    and att: "set_value state collection = Inr state1"
    and start: "parser_callbacks e1 state =
        Inr (1, state\<lparr>stack := \<lparr>node_key = spn_nilval, node_value = fresh\<rparr> # stack state\<rparr>)"
    and body: "\<exists>state2. yajl_deliver es own
          (state\<lparr>stack := \<lparr>node_key = spn_nilval, node_value = fresh\<rparr> # stack state\<rparr>) =
        Inr (own, state2) \<and> root state2 = root state
        \<and> stack state2 = \<lparr>node_key = spn_nilval, node_value = collection\<rparr> # stack state
        \<and> explicit_null state2 = pn"
    and finish: "\<And>s. parser_callbacks e2 s =
        (case state_pop s of
           Inl a \<Rightarrow> Inl a
         | Inr (v, s') \<Rightarrow>
             (case set_value s' v of Inl a \<Rightarrow> Inl a | Inr s'' \<Rightarrow> Inr (1, s'')))"
  shows "\<exists>state3. yajl_deliver (e1 # es @ [e2]) own state = Inr (own, state3)
     \<and> root state3 = root state1 \<and> stack state3 = stack state1 \<and> explicit_null state3 = pn"
proof -
  from body obtain state2 where
    run: "yajl_deliver es own
          (state\<lparr>stack := \<lparr>node_key = spn_nilval, node_value = fresh\<rparr> # stack state\<rparr>) =
        Inr (own, state2)"
    and r2: "root state2 = root state"
    and s2: "stack state2 = \<lparr>node_key = spn_nilval, node_value = collection\<rparr> # stack state"
    and p2: "explicit_null state2 = pn" by blast
  have pop: "state_pop state2 = Inr (collection, state2\<lparr>stack := stack state\<rparr>)"
    using s2 by (simp add: state_pop_def spn_nilval_def)
  from set_value_same_frames [of "state2\<lparr>stack := stack state\<rparr>" state collection state1] r2 att
  obtain state3 where a3: "set_value (state2\<lparr>stack := stack state\<rparr>) collection = Inr state3"
    and "root state3 = root state1" "stack state3 = stack state1"
    and "explicit_null state3 = explicit_null state2"
    by auto
  with start run pop p2 finish [of state2] show ?thesis
    by (simp add: yajl_deliver_append)
qed

lemma null_as_pairs_keys: "map fst (map (\<lambda>(k, v). (k, null_as pn v)) hm) = map fst hm"
  by (induction hm) auto

lemma null_as_hashmap_filter:
  "null_as_hashmap pn hm =
     filter (\<lambda>kv. \<not> spn_isnil (snd kv)) (map (\<lambda>(k, v). (k, null_as pn v)) hm)"
  by (induction hm) auto

lemma null_as_hashmap_distinct:
  "distinct (map fst hm) \<Longrightarrow> distinct (map fst (null_as_hashmap pn hm))"
  unfolding null_as_hashmap_filter
  by (rule distinct_map_filter) (simp only: null_as_pairs_keys)

lemma deliver_value:
  "document node \<longrightarrow> (\<forall>state state1.
     explicit_null state = pn \<and> set_value state (null_as pn node) = Inr state1 \<longrightarrow>
     (\<exists>state2. yajl_deliver (value_events node) own state = Inr (own, state2)
        \<and> root state2 = root state1 \<and> stack state2 = stack state1
        \<and> explicit_null state2 = pn))"
  "document_array array \<longrightarrow> (\<forall>state k acc below.
     explicit_null state = pn
       \<and> stack state = \<lparr>node_key = k, node_value = VArray acc\<rparr> # below \<longrightarrow>
     (\<exists>state2. yajl_deliver (value_events_array array) own state = Inr (own, state2)
        \<and> root state2 = root state
        \<and> stack state2 = \<lparr>node_key = k, node_value = VArray (acc @ null_as_array pn array)\<rparr> # below
        \<and> explicit_null state2 = pn))"
  "document_hashmap hm \<longrightarrow> (\<forall>state acc below.
     explicit_null state = pn
       \<and> stack state = \<lparr>node_key = spn_nilval, node_value = VHashMap acc\<rparr> # below \<longrightarrow>
     (\<exists>state2. yajl_deliver (value_events_hashmap hm) own state = Inr (own, state2)
        \<and> root state2 = root state
        \<and> stack state2 =
            \<lparr>node_key = spn_nilval,
             node_value = VHashMap (fold (\<lambda>(k, v) m. spn_hashmap_set m k v)
                                      (map (\<lambda>(k, v). (k, null_as pn v)) hm) acc)\<rparr> # below
        \<and> explicit_null state2 = pn))"
proof (induction node and array and hm rule: emit_plan_emit_plan_array_emit_plan_hashmap.induct)
  case 1
  show ?case
  proof (intro impI allI, elim conjE)
    fix state state1
    assume pn: "explicit_null state = pn" and att: "set_value state (null_as pn VNil) = Inr state1"
    have "parser_callbacks EvNull state =
      (case set_value state (null_as pn VNil) of Inl a \<Rightarrow> Inl a | Inr state' \<Rightarrow> Inr (1, state'))"
      using pn by (simp add: cb_null_def)
    from deliver_scalar [OF this att pn]
    show "\<exists>state2. yajl_deliver (value_events VNil) own state = Inr (own, state2)
        \<and> root state2 = root state1 \<and> stack state2 = stack state1 \<and> explicit_null state2 = pn"
      by simp
  qed
next
  case (2 b)
  show ?case
    using deliver_scalar [where e = "EvBoolean b" and v = "VBool b" and pn = pn and own = own]
    by (auto simp: cb_boolean_def)
next
  case (3 i)
  show ?case
    using deliver_scalar [where e = "EvInteger i" and v = "VInt i" and pn = pn and own = own]
    by (auto simp: cb_integer_def)
next
  case (4 d)
  show ?case
    using deliver_scalar [where e = "EvDouble d" and v = "VFloat d" and pn = pn and own = own]
    by (auto simp: cb_double_def)
next
  case (5 str)
  show ?case
    using deliver_scalar [where e = "EvString str" and v = "VString str" and pn = pn and own = own]
    by (auto simp: cb_string_def)
next
  case (6 array)
  show ?case
  proof (intro impI allI, elim conjE)
    fix state state1
    assume doc: "document (VArray array)" and pn: "explicit_null state = pn"
      and att: "set_value state (null_as pn (VArray array)) = Inr state1"
    let ?pushed = "state\<lparr>stack := \<lparr>node_key = spn_nilval, node_value = VArray []\<rparr> # stack state\<rparr>"
    from doc 6 pn have body: "\<exists>state2. yajl_deliver (value_events_array array) own ?pushed =
        Inr (own, state2) \<and> root state2 = root state
        \<and> stack state2 = \<lparr>node_key = spn_nilval,
              node_value = VArray (null_as_array pn array)\<rparr> # stack state
        \<and> explicit_null state2 = pn"
      by (auto dest!: spec [where x = ?pushed])
    have start: "parser_callbacks EvStartArray state = Inr (1, ?pushed)"
      by (simp add: cb_start_array_def state_push_def)
    from att have att': "set_value state (VArray (null_as_array pn array)) = Inr state1" by simp
    from deliver_container [OF pn att' start body, of EvEndArray]
    show "\<exists>state2. yajl_deliver (value_events (VArray array)) own state = Inr (own, state2)
        \<and> root state2 = root state1 \<and> stack state2 = stack state1 \<and> explicit_null state2 = pn"
      by (simp add: cb_end_array_def)
  qed
next
  case (7 hm)
  show ?case
  proof (intro impI allI, elim conjE)
    fix state state1
    assume doc: "document (VHashMap hm)" and pn: "explicit_null state = pn"
      and att: "set_value state (null_as pn (VHashMap hm)) = Inr state1"
    let ?pushed = "state\<lparr>stack := \<lparr>node_key = spn_nilval, node_value = VHashMap []\<rparr> # stack state\<rparr>"
    from doc have "distinct (map fst (map (\<lambda>(k, v). (k, null_as pn v)) hm))"
      by (simp only: null_as_pairs_keys) simp
    then have built: "fold (\<lambda>(k, v) m. spn_hashmap_set m k v)
          (map (\<lambda>(k, v). (k, null_as pn v)) hm) [] = null_as_hashmap pn hm"
      using fold_spn_hashmap_set [of "map (\<lambda>(k, v). (k, null_as pn v)) hm" "[]"]
      by (simp add: null_as_hashmap_filter)
    from doc 7 pn have "\<exists>state2. yajl_deliver (value_events_hashmap hm) own ?pushed =
        Inr (own, state2) \<and> root state2 = root ?pushed
        \<and> stack state2 = \<lparr>node_key = spn_nilval,
              node_value = VHashMap (fold (\<lambda>(k, v) m. spn_hashmap_set m k v)
                                       (map (\<lambda>(k, v). (k, null_as pn v)) hm) [])\<rparr> # stack state
        \<and> explicit_null state2 = pn"
      by (auto dest!: spec [where x = ?pushed])
    with built have body: "\<exists>state2. yajl_deliver (value_events_hashmap hm) own ?pushed =
        Inr (own, state2) \<and> root state2 = root state
        \<and> stack state2 = \<lparr>node_key = spn_nilval,
              node_value = VHashMap (null_as_hashmap pn hm)\<rparr> # stack state
        \<and> explicit_null state2 = pn"
      by simp
    have start: "parser_callbacks EvStartMap state = Inr (1, ?pushed)"
      by (simp add: cb_start_map_def state_push_def)
    from att have att': "set_value state (VHashMap (null_as_hashmap pn hm)) = Inr state1" by simp
    from deliver_container [OF pn att' start body, of EvEndMap]
    show "\<exists>state2. yajl_deliver (value_events (VHashMap hm)) own state = Inr (own, state2)
        \<and> root state2 = root state1 \<and> stack state2 = stack state1 \<and> explicit_null state2 = pn"
      by (simp add: cb_end_map_def)
  qed
next
  case (8 p)
  show ?case
  proof (intro impI allI, elim conjE)
    fix state state1
    assume doc: "document (VUserInfo p)" and pn: "explicit_null state = pn"
      and att: "set_value state (null_as pn (VUserInfo p)) = Inr state1"
    have "parser_callbacks EvNull state =
      (case set_value state (null_as pn (VUserInfo p)) of
         Inl a \<Rightarrow> Inl a | Inr state' \<Rightarrow> Inr (1, state'))"
      using pn doc by (simp add: cb_null_def)
    from deliver_scalar [OF this att pn]
    show "\<exists>state2. yajl_deliver (value_events (VUserInfo p)) own state = Inr (own, state2)
        \<and> root state2 = root state1 \<and> stack state2 = stack state1 \<and> explicit_null state2 = pn"
      by simp
  qed
next
  case (9 f)
  show ?case by simp
next
  case 10
  show ?case by simp
next
  case (11 elem rest)
  show ?case
  proof (intro impI allI, elim conjE)
    fix state :: parser_state and k acc below
    assume doc: "document_array (elem # rest)" and pn: "explicit_null state = pn"
      and st: "stack state = \<lparr>node_key = k, node_value = VArray acc\<rparr> # below"
    let ?v = "null_as pn elem"
    let ?state1 = "state\<lparr>stack := \<lparr>node_key = k, node_value = VArray (acc @ [?v])\<rparr> # below,
                     released := released state @ [?v]\<rparr>"
    have att: "set_value state ?v = Inr ?state1"
      using st by (simp add: set_value_def)
    from doc have de: "document elem" and dr: "document_array rest" by simp_all
    from 11(1) [rule_format, OF de conjI [OF pn att]] obtain state2 where
      d1: "yajl_deliver (value_events elem) own state = Inr (own, state2)"
      and r2: "root state2 = root state"
      and s2: "stack state2 = \<lparr>node_key = k, node_value = VArray (acc @ [?v])\<rparr> # below"
      and p2: "explicit_null state2 = pn"
      by auto
    from 11(2) [rule_format, OF dr conjI [OF p2 s2]] obtain state3 where
      "yajl_deliver (value_events_array rest) own state2 = Inr (own, state3)"
      "root state3 = root state2"
      "stack state3 = \<lparr>node_key = k,
          node_value = VArray ((acc @ [?v]) @ null_as_array pn rest)\<rparr> # below"
      "explicit_null state3 = pn"
      by auto
    with d1 r2
    show "\<exists>state2. yajl_deliver (value_events_array (elem # rest)) own state = Inr (own, state2)
        \<and> root state2 = root state
        \<and> stack state2 =
            \<lparr>node_key = k, node_value = VArray (acc @ null_as_array pn (elem # rest))\<rparr> # below
        \<and> explicit_null state2 = pn"
      by (simp add: yajl_deliver_append)
  qed
next
  case 12
  show ?case by simp
next
  case (13 key val rest)
  show ?case
  proof (intro impI allI, elim conjE)
    fix state :: parser_state and acc below
    assume doc: "document_hashmap ((key, val) # rest)" and pn: "explicit_null state = pn"
      and st: "stack state = \<lparr>node_key = spn_nilval, node_value = VHashMap acc\<rparr> # below"
    from doc obtain s where key: "key = VString s" by (cases key) auto
    let ?v = "null_as pn val"
    let ?keyed = "state\<lparr>stack := \<lparr>node_key = VString s, node_value = VHashMap acc\<rparr> # below\<rparr>"
    let ?state1 = "?keyed\<lparr>stack := \<lparr>node_key = spn_nilval,
                       node_value = VHashMap (spn_hashmap_set acc (VString s) ?v)\<rparr> # below,
                     released := released ?keyed @ [VString s, ?v]\<rparr>"
    have cb: "parser_callbacks (EvMapKey s) state = Inr (1, ?keyed)"
      using st by (simp add: cb_map_key_def spn_nilval_def)
    have att: "set_value ?keyed ?v = Inr ?state1"
      by (simp add: set_value_def)
    have pk: "explicit_null ?keyed = pn" using pn by simp
    from doc have dv: "document val" and dr: "document_hashmap rest" by simp_all
    from 13(2) [rule_format, OF dv conjI [OF pk att]] obtain state2 where
      d1: "yajl_deliver (value_events val) own ?keyed = Inr (own, state2)"
      and r2: "root state2 = root state"
      and s2: "stack state2 = \<lparr>node_key = spn_nilval,
                       node_value = VHashMap (spn_hashmap_set acc (VString s) ?v)\<rparr> # below"
      and p2: "explicit_null state2 = pn"
      by auto
    from 13(3) [rule_format, OF dr conjI [OF p2 s2]] obtain state3 where
      "yajl_deliver (value_events_hashmap rest) own state2 = Inr (own, state3)"
      "root state3 = root state2"
      "stack state3 = \<lparr>node_key = spn_nilval,
          node_value = VHashMap (fold (\<lambda>(k, v) m. spn_hashmap_set m k v)
              (map (\<lambda>(k, v). (k, null_as pn v)) rest)
              (spn_hashmap_set acc (VString s) ?v))\<rparr> # below"
      "explicit_null state3 = pn"
      by auto
    with cb d1 r2 key
    show "\<exists>state2. yajl_deliver (value_events_hashmap ((key, val) # rest)) own state =
          Inr (own, state2)
        \<and> root state2 = root state
        \<and> stack state2 =
            \<lparr>node_key = spn_nilval,
             node_value = VHashMap (fold (\<lambda>(k, v) m. spn_hashmap_set m k v)
                                      (map (\<lambda>(k, v). (k, null_as pn v)) ((key, val) # rest))
                                      acc)\<rparr> # below
        \<and> explicit_null state2 = pn"
      by (simp add: yajl_deliver_append)
  qed
qed

lemma null_as_document:
  "document node \<longrightarrow> document (null_as pn node)"
  "document_array array \<longrightarrow> document_array (null_as_array pn array)"
  "document_hashmap hm \<longrightarrow> document_hashmap (null_as_hashmap pn hm)"
  by (induction node and array and hm rule: emit_plan_emit_plan_array_emit_plan_hashmap.induct)
    (simp_all add: null_as_hashmap_distinct null_value_def spn_nilval_def)

lemma null_as_idem:
  "null_as pn (null_as pn node) = null_as pn node"
  "null_as_array pn (null_as_array pn array) = null_as_array pn array"
  "null_as_hashmap pn (null_as_hashmap pn hm) = null_as_hashmap pn hm"
  by (induction node and array and hm rule: emit_plan_emit_plan_array_emit_plan_hashmap.induct)
    (simp_all add: null_value_def spn_nilval_def)

lemma generated_calls:
  assumes doc: "document node"
  shows "generate_recursive (logging_writer (\<lambda>c. yajl_gen_status_ok)) [] [] node =
     (0, the_calls (emit_plan node), [])"
proof -
  from doc have "\<forall>msg. Reject msg \<notin> set (emit_plan node)"
    by (simp add: document_no_reject(1))
  then show ?thesis
    by (simp add: generate_is_run_plan(1) run_plan_logging)
qed

lemma deliver_generated:
  assumes doc: "document node" and empty: "stack start = []"
  shows "\<exists>state. yajl_deliver (lexer_events [] (the_calls (emit_plan node))) yajl_status_ok start =
        Inr (yajl_status_ok, state)
     \<and> root state = null_as (explicit_null start) node \<and> stack state = []"
proof -
  have "lexer_events [] (the_calls (emit_plan node) @ []) =
      value_events node @ lexer_events (after_value []) []"
    using lexer_events_value(1) [of node] doc by blast
  then have ev: "lexer_events [] (the_calls (emit_plan node)) = value_events node"
    by simp
  let ?pn = "explicit_null start"
  have att: "set_value start (null_as ?pn node) = Inr (start\<lparr>root := null_as ?pn node\<rparr>)"
    using empty by (simp add: set_value_def)
  have pn: "explicit_null start = ?pn" by simp
  from deliver_value(1) [of node ?pn yajl_status_ok, rule_format, OF doc conjI [OF pn att]]
  obtain state2 where "yajl_deliver (value_events node) yajl_status_ok start =
      Inr (yajl_status_ok, state2)" and "root state2 = null_as ?pn node" and "stack state2 = []"
    using empty by auto
  with ev show ?thesis by simp
qed

section \<open>The claims\<close>

text \<open>
  C1. For every Document value that \<open>json_generate\<close> serialises on a Writer that
  accepts its calls, and every Lexer that raises, for the text returned, the events
  matching the calls the generator made, \<open>json_parse\<close> of that text returns the
  value with every nil and every null value replaced by the null of the parse mode: nil
  when \<^verbatim>\<open>parse_null\<close> is off, the null value when it is on; a member of a map
  whose value becomes nil is gone from the map, since setting a key to nil deletes it.
  The result is a Document value again, which the same replacement leaves as it is.
  The round trip is not the identity on every Document value: nil comes back as the
  null value when \<^verbatim>\<open>parse_null\<close> is on, and the null value comes back as nil
  when it is off.
\<close>

theorem generate_then_parse:
  assumes doc: "document node"
    and gargs: "gargs = [node] \<and> gen0 = yajl_gen_alloc w
       \<or> gargs = [node, VHashMap gconfig]
           \<and> config_gen w (yajl_gen_alloc w) (VHashMap gconfig) = Inr gen0"
    and walk: "generate_recursive w gen0 [] node = (0, gen1, ctx1)"
    and buffer: "yajl_gen_get_buf w gen1 = (yajl_gen_status_ok, str)"
    and calls: "generate_recursive (logging_writer (\<lambda>c. yajl_gen_status_ok)) [] [] node =
       (error, calls, ctx)"
    and args: "argv = [VString str] \<and> hndl = yajl_alloc \<and> start = state_init
       \<or> argv = [VString str, VHashMap config]
           \<and> config_parser yajl_alloc state_init (VHashMap config) = Inr (hndl, start)"
    and lexer: "lx hndl str = run"
    and events: "parse_events run @ complete_events run = lexer_events [] calls"
    and status: "parse_status run = yajl_status_ok \<and> complete_status run = yajl_status_ok"
  shows "json_generate w gargs =
        Inr \<lparr>rv = 0, ret = Some (VString str), ctx_errors = [], released_values = []\<rparr>
     \<and> (\<exists>rel. json_parse lx argv =
        Inr \<lparr>rv = 0, ret = Some (null_as (explicit_null start) node), ctx_errors = [],
             released_values = rel\<rparr>)
     \<and> document (null_as (explicit_null start) node)
     \<and> null_as (explicit_null start) (null_as (explicit_null start) node) =
         null_as (explicit_null start) node"
proof -
  from walk have "run_plan w gen0 [] (emit_plan node) = (0, gen1, ctx1)"
    by (simp add: generate_is_run_plan(1))
  from run_plan_errors [OF this] have "ctx1 = []" by simp
  with json_generate_walk [OF gargs walk] buffer
  have g: "json_generate w gargs =
        Inr \<lparr>rv = 0, ret = Some (VString str), ctx_errors = [], released_values = []\<rparr>"
    by simp
  from calls generated_calls [OF doc] have c: "calls = the_calls (emit_plan node)"
    by simp
  have empty: "stack start = []"
    using args by (auto simp: state_init_def dest: config_parser_stack)
  from deliver_generated [OF doc empty] c events obtain state where
    d: "yajl_deliver (parse_events run @ complete_events run) yajl_status_ok start =
        Inr (yajl_status_ok, state)"
    and r: "root state = null_as (explicit_null start) node" and s: "stack state = []"
    by auto
  from json_parse_run [where lx = lx and hndl = hndl and s = str, OF args lexer d] status r s
  have "json_parse lx argv =
        Inr \<lparr>rv = 0, ret = Some (null_as (explicit_null start) node), ctx_errors = [],
             released_values = released state\<rparr>"
    by simp
  with doc g show ?thesis
    by (auto simp: null_as_document(1) null_as_idem(1))
qed

theorem generate_then_parse_witness:
  \<open>json_generate (rendering_writer (\<lambda>calls. ''{"k":4,"n":null}''))
      [VHashMap [(VString ''k'', VInt 4), (VString ''n'', null_value)]] =
     Inr \<lparr>rv = 0, ret = Some (VString ''{"k":4,"n":null}''), ctx_errors = [],
          released_values = []\<rparr>
   \<and> json_parse
      (\<lambda>hndl str. \<lparr>parse_events = [EvStartMap, EvMapKey ''k'', EvInteger 4, EvMapKey ''n'', EvNull],
         parse_status = yajl_status_ok, complete_events = [EvEndMap],
         complete_status = yajl_status_ok, error_string = []\<rparr>)
      [VString ''{"k":4,"n":null}''] =
     Inr \<lparr>rv = 0, ret = Some (VHashMap [(VString ''k'', VInt 4)]), ctx_errors = [],
          released_values = [VString ''k'', VInt 4, VString ''n'', VNil]\<rparr>\<close>
proof -
  let ?node = "VHashMap [(VString ''k'', VInt 4), (VString ''n'', null_value)]"
  let ?str = \<open>''{"k":4,"n":null}''\<close>
  let ?w = "rendering_writer (\<lambda>calls. ?str)"
  let ?run = "\<lparr>parse_events = [EvStartMap, EvMapKey ''k'', EvInteger 4, EvMapKey ''n'', EvNull],
         parse_status = yajl_status_ok, complete_events = [EvEndMap],
         complete_status = yajl_status_ok, error_string = []\<rparr>"
  let ?calls = "[Gen_map_open, Gen_string ''k'', Gen_integer 4, Gen_string ''n'', Gen_null,
      Gen_map_close]"
  have doc: "document ?node" by (simp add: null_value_def)
  have gargs: "[?node] = [?node] \<and> [] = yajl_gen_alloc ?w
       \<or> [?node] = [?node, VHashMap []]
           \<and> config_gen ?w (yajl_gen_alloc ?w) (VHashMap []) = Inr []"
    by (simp add: rendering_writer_def)
  have walk: "generate_recursive ?w [] [] ?node = (0, ?calls, [])"
    by (simp add: rendering_writer_def RETURN_IF_FAIL_def null_value_def)
  have buffer: "yajl_gen_get_buf ?w ?calls = (yajl_gen_status_ok, ?str)"
    by (simp add: rendering_writer_def)
  have calls: "generate_recursive (logging_writer (\<lambda>c. yajl_gen_status_ok)) [] [] ?node =
       (0, ?calls, [])"
    by (simp add: logging_writer_def RETURN_IF_FAIL_def null_value_def)
  have args: "[VString ?str] = [VString ?str] \<and> yajl_alloc = yajl_alloc \<and> state_init = state_init
       \<or> [VString ?str] = [VString ?str, VHashMap []]
           \<and> config_parser yajl_alloc state_init (VHashMap []) = Inr (yajl_alloc, state_init)"
    by simp
  have lexer: "(\<lambda>hndl str. ?run) yajl_alloc ?str = ?run" by simp
  have events: "parse_events ?run @ complete_events ?run = lexer_events [] ?calls"
    by simp
  have status: "parse_status ?run = yajl_status_ok \<and> complete_status ?run = yajl_status_ok"
    by simp
  have rel: "json_parse (\<lambda>hndl str. ?run) [VString ?str] =
     Inr \<lparr>rv = 0, ret = Some (VHashMap [(VString ''k'', VInt 4)]), ctx_errors = [],
          released_values = [VString ''k'', VInt 4, VString ''n'', VNil]\<rparr>"
    by (simp add: json_parse_def state_init_def spn_nilval_def yajl_alloc_def cb_start_map_def
        cb_map_key_def cb_integer_def cb_null_def cb_end_map_def set_value_def state_push_def
        state_pop_def state_free_def spn_hashmap_set_def)
  from generate_then_parse [where lx = "\<lambda>hndl str. ?run" and w = ?w and hndl = yajl_alloc,
      OF doc gargs walk buffer calls args lexer events status] rel
  show ?thesis by simp
qed

theorem roundtrip_null_counterexample:
  "document VNil
   \<and> json_generate (rendering_writer (\<lambda>calls. ''null'')) [VNil] =
       Inr \<lparr>rv = 0, ret = Some (VString ''null''), ctx_errors = [], released_values = []\<rparr>
   \<and> json_parse
       (\<lambda>hndl str. \<lparr>parse_events = [EvNull], parse_status = yajl_status_ok,
          complete_events = [], complete_status = yajl_status_ok, error_string = []\<rparr>)
       [VString ''null'', VHashMap [(VString ''parse_null'', VBool True)]] =
       Inr \<lparr>rv = 0, ret = Some null_value, ctx_errors = [], released_values = []\<rparr>
   \<and> null_value \<noteq> VNil
   \<and> document null_value
   \<and> json_generate (rendering_writer (\<lambda>calls. ''null'')) [null_value] =
       Inr \<lparr>rv = 0, ret = Some (VString ''null''), ctx_errors = [], released_values = []\<rparr>
   \<and> json_parse
       (\<lambda>hndl str. \<lparr>parse_events = [EvNull], parse_status = yajl_status_ok,
          complete_events = [], complete_status = yajl_status_ok, error_string = []\<rparr>)
       [VString ''null''] =
       Inr \<lparr>rv = 0, ret = Some VNil, ctx_errors = [], released_values = []\<rparr>"
  by (simp add: json_generate_def json_parse_def rendering_writer_def RETURN_IF_FAIL_def
      config_parser_def parser_set_bool_option_def state_set_bool_option_def
      cb_null_def set_value_def state_init_def state_free_def yajl_alloc_def
      null_value_def spn_nilval_def)

text \<open>
  C2. Given a Lexer that raises the single event null for the text \<^verbatim>\<open>null\<close> and
  reports no error, \<open>json_parse\<close> with \<^verbatim>\<open>parse_null\<close> set to true returns the
  null value, and with it set to false, or with no options, returns nil; the two
  differ. The generator makes the same single call \<^verbatim>\<open>yajl_gen_null\<close> for both,
  so with a Writer whose buffer after that call is the text \<^verbatim>\<open>null\<close>,
  \<open>json_generate\<close> returns that text for both.
\<close>

theorem explicit_null_distinction:
  assumes lexer: "lx yajl_alloc ''null'' = run"
    and events: "parse_events run @ complete_events run = [EvNull]"
    and status: "parse_status run = yajl_status_ok \<and> complete_status run = yajl_status_ok"
    and writer: "yajl_gen w (yajl_gen_alloc w) Gen_null = (yajl_gen_status_ok, gen1)
       \<and> yajl_gen_get_buf w gen1 = (yajl_gen_status_ok, ''null'')"
  shows "json_parse lx [VString ''null'', VHashMap [(VString ''parse_null'', VBool True)]] =
       Inr \<lparr>rv = 0, ret = Some null_value, ctx_errors = [], released_values = []\<rparr>
     \<and> json_parse lx [VString ''null'', VHashMap [(VString ''parse_null'', VBool False)]] =
       Inr \<lparr>rv = 0, ret = Some spn_nilval, ctx_errors = [], released_values = []\<rparr>
     \<and> json_parse lx [VString ''null''] =
       Inr \<lparr>rv = 0, ret = Some spn_nilval, ctx_errors = [], released_values = []\<rparr>
     \<and> null_value \<noteq> spn_nilval
     \<and> generate_recursive w gen ctx null_value =
         (case yajl_gen w gen Gen_null of
            (status, gen') \<Rightarrow>
              if status = yajl_gen_status_ok then (0, gen', ctx)
              else (- 1, gen', ctx @ [''YAJL error: yajl_gen_null(gen)'']))
     \<and> generate_recursive w gen ctx spn_nilval = generate_recursive w gen ctx null_value
     \<and> json_generate w [null_value] =
         Inr \<lparr>rv = 0, ret = Some (VString ''null''), ctx_errors = [], released_values = []\<rparr>
     \<and> json_generate w [spn_nilval] =
         Inr \<lparr>rv = 0, ret = Some (VString ''null''), ctx_errors = [], released_values = []\<rparr>"
proof -
  have d: "yajl_deliver (parse_events run @ complete_events run) yajl_status_ok
        (state_init\<lparr>explicit_null := b\<rparr>) =
      Inr (yajl_status_ok,
        state_init\<lparr>explicit_null := b, root := (if b then null_value else spn_nilval)\<rparr>)" for b
    unfolding events by (simp add: cb_null_def set_value_def state_init_def)
  have c: "config_parser yajl_alloc state_init (VHashMap [(VString ''parse_null'', VBool b)]) =
      Inr (yajl_alloc, state_init\<lparr>explicit_null := b\<rparr>)" for b
    by (simp add: config_parser_def parser_set_bool_option_def state_set_bool_option_def
        spn_nilval_def)
  have p: "json_parse lx [VString ''null'', VHashMap [(VString ''parse_null'', VBool b)]] =
       Inr \<lparr>rv = 0, ret = Some (if b then null_value else spn_nilval), ctx_errors = [],
            released_values = []\<rparr>" for b
    using json_parse_run [where lx = lx and hndl = yajl_alloc and s = "''null''"
        and argv = "[VString ''null'', VHashMap [(VString ''parse_null'', VBool b)]]"
        and config = "[(VString ''parse_null'', VBool b)]"
        and start = "state_init\<lparr>explicit_null := b\<rparr>", OF _ lexer d] c status
    by (simp add: state_init_def)
  have d0: "yajl_deliver (parse_events run @ complete_events run) yajl_status_ok state_init =
      Inr (yajl_status_ok, state_init\<lparr>root := spn_nilval\<rparr>)"
    unfolding events by (simp add: cb_null_def set_value_def state_init_def)
  have p0: "json_parse lx [VString ''null''] =
       Inr \<lparr>rv = 0, ret = Some spn_nilval, ctx_errors = [], released_values = []\<rparr>"
    using json_parse_run [where lx = lx and hndl = yajl_alloc and s = "''null''"
        and argv = "[VString ''null'']" and start = state_init, OF _ lexer d0] status
    by (simp add: state_init_def)
  have g: "generate_recursive w gen ctx null_value =
         (case yajl_gen w gen Gen_null of
            (status, gen') \<Rightarrow>
              if status = yajl_gen_status_ok then (0, gen', ctx)
              else (- 1, gen', ctx @ [''YAJL error: yajl_gen_null(gen)'']))" for gen ctx
    by (simp add: null_value_def RETURN_IF_FAIL_def split: prod.splits)
  have g': "generate_recursive w gen ctx spn_nilval = generate_recursive w gen ctx null_value"
    for gen ctx
    by (simp add: null_value_def spn_nilval_def)
  have j: "json_generate w [null_value] =
         Inr \<lparr>rv = 0, ret = Some (VString ''null''), ctx_errors = [], released_values = []\<rparr>"
    using writer by (simp add: json_generate_def g)
  have j': "json_generate w [spn_nilval] =
         Inr \<lparr>rv = 0, ret = Some (VString ''null''), ctx_errors = [], released_values = []\<rparr>"
    using writer by (simp add: json_generate_def g g')
  from p [of True] p [of False] p0 g g' j j' show ?thesis
    by (simp add: null_value_def spn_nilval_def)
qed

theorem explicit_null_distinction_witness:
  "json_parse (\<lambda>hndl text. \<lparr>parse_events = [EvNull], parse_status = yajl_status_ok,
        complete_events = [], complete_status = yajl_status_ok, error_string = []\<rparr>)
      [VString ''null'', VHashMap [(VString ''parse_null'', VBool True)]] =
     Inr \<lparr>rv = 0, ret = Some (VUserInfo AddrNullValue), ctx_errors = [], released_values = []\<rparr>
   \<and> json_parse (\<lambda>hndl text. \<lparr>parse_events = [EvNull], parse_status = yajl_status_ok,
        complete_events = [], complete_status = yajl_status_ok, error_string = []\<rparr>)
      [VString ''null'', VHashMap [(VString ''parse_null'', VBool False)]] =
     Inr \<lparr>rv = 0, ret = Some VNil, ctx_errors = [], released_values = []\<rparr>
   \<and> json_generate
      \<lparr>yajl_gen_alloc = [], yajl_gen_config = (\<lambda>gen opt val. gen),
       yajl_gen = (\<lambda>gen c. (yajl_gen_status_ok, gen @ [c])),
       yajl_gen_get_buf = (\<lambda>gen. (yajl_gen_status_ok, if gen = [Gen_null] then ''null'' else []))\<rparr>
      [VUserInfo AddrNullValue] =
     Inr \<lparr>rv = 0, ret = Some (VString ''null''), ctx_errors = [], released_values = []\<rparr>"
proof -
  let ?run = "\<lparr>parse_events = [EvNull], parse_status = yajl_status_ok,
        complete_events = [], complete_status = yajl_status_ok, error_string = []\<rparr>"
  let ?w = "\<lparr>yajl_gen_alloc = [], yajl_gen_config = (\<lambda>gen opt val. gen),
       yajl_gen = (\<lambda>gen c. (yajl_gen_status_ok, gen @ [c])),
       yajl_gen_get_buf = (\<lambda>gen. (yajl_gen_status_ok, if gen = [Gen_null] then ''null'' else []))\<rparr>"
  have lexer: "(\<lambda>hndl text. ?run) yajl_alloc ''null'' = ?run" by simp
  have events: "parse_events ?run @ complete_events ?run = [EvNull]" by simp
  have status: "parse_status ?run = yajl_status_ok \<and> complete_status ?run = yajl_status_ok"
    by simp
  have writer: "yajl_gen ?w (yajl_gen_alloc ?w) Gen_null = (yajl_gen_status_ok, [Gen_null])
       \<and> yajl_gen_get_buf ?w [Gen_null] = (yajl_gen_status_ok, ''null'')"
    by simp
  from explicit_null_distinction [where lx = "\<lambda>hndl text. ?run" and w = ?w,
      OF lexer events status writer]
  show ?thesis by (simp add: null_value_def spn_nilval_def)
qed

text \<open>
  C3. \<^verbatim>\<open>set_value\<close> is the one place where a completed value is attached. With
  an empty stack the value becomes the root. With an array on top the value is
  appended to it. With a map on top and a string as pending key, the key is set to the
  value in the map and the pending key is reset to nil: for a value other than nil the
  value of a key already there is overwritten in place and a new key is appended after
  the others; for nil, which is what a JSON null is with \<^verbatim>\<open>parse_null\<close> off,
  the key is removed and no pair is added. With a map on top and no string as pending
  key the assertion fails.
\<close>

theorem set_value_attach:
  "(stack state = [] \<longrightarrow> set_value state v = Inr (state\<lparr>root := v\<rparr>))
   \<and> (stack state = \<lparr>node_key = k, node_value = VArray array\<rparr> # below \<longrightarrow>
        set_value state v =
          Inr (state\<lparr>stack := \<lparr>node_key = k, node_value = VArray (array @ [v])\<rparr> # below,
                     released := released state @ [v]\<rparr>))
   \<and> (stack state = \<lparr>node_key = VString key, node_value = VHashMap hm\<rparr> # below \<longrightarrow>
        set_value state v =
          Inr (state\<lparr>stack :=
                       \<lparr>node_key = spn_nilval,
                        node_value = VHashMap (spn_hashmap_set hm (VString key) v)\<rparr> # below,
                     released := released state @ [VString key, v]\<rparr>)
        \<and> (\<not> spn_isnil v \<longrightarrow>
             map fst (spn_hashmap_set hm (VString key) v) =
               (if VString key \<in> set (map fst hm) then map fst hm else map fst hm @ [VString key])
             \<and> map_of (spn_hashmap_set hm (VString key) v) = (map_of hm)(VString key \<mapsto> v))
        \<and> (spn_isnil v \<longrightarrow>
             spn_hashmap_set hm (VString key) v = filter (\<lambda>kv. fst kv \<noteq> VString key) hm
             \<and> map_of (spn_hashmap_set hm (VString key) v) = (map_of hm)(VString key := None)))
   \<and> (stack state = \<lparr>node_key = k, node_value = VHashMap hm\<rparr> # below \<and> \<not> spn_isstring k \<longrightarrow>
        set_value state v = Inl (AssertionFailed ''spn_isstring(&state->stack->key)''))"
  by (simp add: set_value_def spn_hashmap_set_def hashmap_put_keys hashmap_put_map_of
      hashmap_remove_filter [symmetric] hashmap_remove_map_of)

theorem set_value_attach_witness:
  "set_value state_init (VInt 7) = Inr (state_init\<lparr>root := VInt 7\<rparr>)
   \<and> set_value (state_init\<lparr>stack := [\<lparr>node_key = spn_nilval, node_value = VArray [VInt 1]\<rparr>]\<rparr>) (VInt 7) =
       Inr (state_init\<lparr>stack := [\<lparr>node_key = spn_nilval, node_value = VArray [VInt 1, VInt 7]\<rparr>],
                       released := [VInt 7]\<rparr>)
   \<and> set_value (state_init\<lparr>stack :=
         [\<lparr>node_key = VString ''b'', node_value = VHashMap [(VString ''a'', VInt 1)]\<rparr>]\<rparr>) (VInt 7) =
       Inr (state_init\<lparr>stack :=
              [\<lparr>node_key = spn_nilval,
                node_value = VHashMap [(VString ''a'', VInt 1), (VString ''b'', VInt 7)]\<rparr>],
            released := [VString ''b'', VInt 7]\<rparr>)
   \<and> set_value (state_init\<lparr>stack :=
         [\<lparr>node_key = VString ''a'',
           node_value = VHashMap [(VString ''a'', VInt 1), (VString ''b'', VInt 2)]\<rparr>]\<rparr>) (VInt 7) =
       Inr (state_init\<lparr>stack :=
              [\<lparr>node_key = spn_nilval,
                node_value = VHashMap [(VString ''a'', VInt 7), (VString ''b'', VInt 2)]\<rparr>],
            released := [VString ''a'', VInt 7]\<rparr>)
   \<and> set_value (state_init\<lparr>stack :=
         [\<lparr>node_key = VString ''a'',
           node_value = VHashMap [(VString ''a'', VInt 1), (VString ''b'', VInt 2)]\<rparr>]\<rparr>) VNil =
       Inr (state_init\<lparr>stack :=
              [\<lparr>node_key = spn_nilval, node_value = VHashMap [(VString ''b'', VInt 2)]\<rparr>],
            released := [VString ''a'', VNil]\<rparr>)
   \<and> set_value (state_init\<lparr>stack := [\<lparr>node_key = spn_nilval, node_value = VHashMap []\<rparr>]\<rparr>) (VInt 7) =
       Inl (AssertionFailed ''spn_isstring(&state->stack->key)'')"
  using set_value_attach [where state = state_init and v = "VInt 7"]
    set_value_attach [where state = "state_init\<lparr>stack := [\<lparr>node_key = spn_nilval, node_value = VArray [VInt 1]\<rparr>]\<rparr>"
      and k = spn_nilval and array = "[VInt 1]" and below = "[]" and v = "VInt 7"]
    set_value_attach [where state = "state_init\<lparr>stack :=
         [\<lparr>node_key = VString ''b'', node_value = VHashMap [(VString ''a'', VInt 1)]\<rparr>]\<rparr>"
      and key = "''b''" and hm = "[(VString ''a'', VInt 1)]" and below = "[]" and v = "VInt 7"]
    set_value_attach [where state = "state_init\<lparr>stack :=
         [\<lparr>node_key = VString ''a'',
           node_value = VHashMap [(VString ''a'', VInt 1), (VString ''b'', VInt 2)]\<rparr>]\<rparr>"
      and key = "''a''" and hm = "[(VString ''a'', VInt 1), (VString ''b'', VInt 2)]"
      and below = "[]" and v = "VInt 7"]
    set_value_attach [where state = "state_init\<lparr>stack :=
         [\<lparr>node_key = VString ''a'',
           node_value = VHashMap [(VString ''a'', VInt 1), (VString ''b'', VInt 2)]\<rparr>]\<rparr>"
      and key = "''a''" and hm = "[(VString ''a'', VInt 1), (VString ''b'', VInt 2)]"
      and below = "[]" and v = VNil]
    set_value_attach [where state = "state_init\<lparr>stack := [\<lparr>node_key = spn_nilval, node_value = VHashMap []\<rparr>]\<rparr>"
      and k = spn_nilval and hm = "[]" and below = "[]" and v = "VInt 7"]
  by (simp add: state_init_def spn_nilval_def spn_hashmap_set_def)

theorem set_value_nil_counterexample:
  "set_value (state_init\<lparr>stack :=
       [\<lparr>node_key = VString ''a'', node_value = VHashMap [(VString ''a'', VInt 1)]\<rparr>]\<rparr>) VNil =
     Inr (state_init\<lparr>stack := [\<lparr>node_key = spn_nilval, node_value = VHashMap []\<rparr>],
                     released := [VString ''a'', VNil]\<rparr>)
   \<and> yajl_deliver [EvStartMap, EvMapKey ''a'', EvInteger 1, EvMapKey ''a'', EvNull, EvEndMap]
       yajl_status_ok state_init =
     Inr (yajl_status_ok,
          state_init\<lparr>root := VHashMap [], released := [VString ''a'', VInt 1, VString ''a'', VNil]\<rparr>)
   \<and> spn_hashmap_get_strkey [] ''a'' = VNil"
  by (simp add: state_init_def spn_nilval_def spn_hashmap_set_def set_value_def cb_start_map_def
      cb_map_key_def cb_integer_def cb_null_def cb_end_map_def state_push_def state_pop_def)

text \<open>
  C4. When the Lexer reports a failure, from \<^verbatim>\<open>yajl_parse\<close> or from
  \<^verbatim>\<open>yajl_complete_parse\<close>, on events that are a prefix of a well-nested
  sequence, \<open>json_parse\<close> returns -4 or -5, stores no value, reports the runtime
  error that carries the Lexer's verbose message, and releases the root and then the
  key and the value of every frame still on the stack.
\<close>

theorem parse_failure_teardown:
  assumes args: "argv = [VString s] \<and> hndl = yajl_alloc \<and> start = state_init
       \<or> argv = [VString s, VHashMap config]
           \<and> config_parser yajl_alloc state_init (VHashMap config) = Inr (hndl, start)"
    and lexer: "lx hndl s = run"
    and nested: "lexer_steps (False, []) (parse_events run @ complete_events run) \<noteq> None"
    and failed: "parse_status run \<noteq> yajl_status_ok \<or> complete_status run \<noteq> yajl_status_ok"
  shows "\<exists>state.
      yajl_deliver (parse_events run @ complete_events run) yajl_status_ok start =
        Inr (yajl_status_ok, state)
      \<and> json_parse lx argv =
          Inr \<lparr>rv = (if parse_status run \<noteq> yajl_status_ok then - 4 else - 5),
               ret = None,
               ctx_errors = [''error parsing JSON: '' @ error_string run],
               released_values = released state @ root state # free_nodes (stack state)\<rparr>
      \<and> set (free_nodes (stack state)) =
          node_key ` set (stack state) \<union> node_value ` set (stack state)"
proof -
  have s0: "stack start = []"
    using args by (auto simp: state_init_def dest: config_parser_stack)
  from nested obtain d ns where
    "lexer_steps (False, []) (parse_events run @ complete_events run) = Some (d, ns)"
    by auto
  from deliver_from_init [OF this s0, of yajl_status_ok] obtain state where
    run: "yajl_deliver (parse_events run @ complete_events run) yajl_status_ok start =
        Inr (yajl_status_ok, state)" by blast
  from json_parse_run [where lx = lx and hndl = hndl and s = s, OF args lexer run] failed run show ?thesis
    by (auto simp: free_nodes_set)
qed

theorem parse_failure_teardown_witness:
  "json_parse
     (\<lambda>hndl text. \<lparr>parse_events = [EvStartArray, EvStartMap, EvMapKey ''k'', EvStartArray, EvNull],
        parse_status = yajl_status_error, complete_events = [],
        complete_status = yajl_status_error, error_string = ''parse error: premature EOF''\<rparr>)
     [VString ''[{k:[null'', VHashMap [(VString ''parse_null'', VBool True)]] =
   Inr \<lparr>rv = - 4, ret = None,
        ctx_errors = [''error parsing JSON: parse error: premature EOF''],
        released_values =
          [null_value, VNil, VNil, VArray [null_value], VString ''k'', VHashMap [], VNil, VArray []]\<rparr>"
proof -
  let ?run = "\<lparr>parse_events = [EvStartArray, EvStartMap, EvMapKey ''k'', EvStartArray, EvNull],
        parse_status = yajl_status_error, complete_events = [],
        complete_status = yajl_status_error, error_string = ''parse error: premature EOF''\<rparr>"
  let ?config = "[(VString ''parse_null'', VBool True)]"
  let ?text = "''[{k:[null''"
  have args: "[VString ?text, VHashMap ?config] = [VString ?text] \<and> yajl_alloc = yajl_alloc
         \<and> state_init\<lparr>explicit_null := True\<rparr> = state_init
       \<or> [VString ?text, VHashMap ?config] = [VString ?text, VHashMap ?config]
           \<and> config_parser yajl_alloc state_init (VHashMap ?config) =
               Inr (yajl_alloc, state_init\<lparr>explicit_null := True\<rparr>)"
    by (simp add: config_parser_def parser_set_bool_option_def state_set_bool_option_def
        spn_nilval_def)
  have lexer: "(\<lambda>hndl text. ?run) yajl_alloc ?text = ?run"
    by simp
  have nested: "lexer_steps (False, []) (parse_events ?run @ complete_events ?run) \<noteq> None"
    by (simp add: value_done_def)
  have failed: "parse_status ?run \<noteq> yajl_status_ok \<or> complete_status ?run \<noteq> yajl_status_ok"
    by simp
  have run: "yajl_deliver [EvStartArray, EvStartMap, EvMapKey ''k'', EvStartArray, EvNull]
       yajl_status_ok (state_init\<lparr>explicit_null := True\<rparr>) =
     Inr (yajl_status_ok,
       \<lparr>root = VNil,
        stack = [\<lparr>node_key = VNil, node_value = VArray [null_value]\<rparr>,
                 \<lparr>node_key = VString ''k'', node_value = VHashMap []\<rparr>,
                 \<lparr>node_key = VNil, node_value = VArray []\<rparr>],
        explicit_null = True, released = [null_value]\<rparr>)"
    by (simp add: state_init_def spn_nilval_def cb_null_def cb_start_array_def cb_start_map_def
        cb_map_key_def set_value_def state_push_def)
  from parse_failure_teardown [where lx = "\<lambda>hndl text. ?run" and hndl = yajl_alloc and s = ?text,
      OF args lexer nested failed] run show ?thesis
    by simp
qed

text \<open>
  C5. The generator does what running the flattened list of its steps does, and that
  run stops at the first call the Writer refuses and at the first value that cannot be
  serialised: the result is -1, the Writer handle is the one that call left (no later
  call is made), and the one runtime error of that step is reported. Whenever
  \<open>json_generate\<close> returns a code other than 0 it stores no string and has
  reported exactly one runtime error. And \<open>json_generate\<close> does return -1, with
  no string and with that one error, whenever the walk fails: at a refused call, at a
  rejected value, and in general when \<^verbatim>\<open>generate_recursive\<close> returns a code
  other than 0; when the walk succeeds it returns the Writer's buffer, or -3 and no
  string when the buffer cannot be had.
\<close>

theorem generate_aborts_at_first_error:
  "generate_recursive w gen ctx node = run_plan w gen ctx (emit_plan node)
   \<and> (emit_plan node = before @ Call c # after
        \<and> run_plan w gen ctx before = (0, gen1, ctx1)
        \<and> yajl_gen w gen1 c = (status, gen2) \<and> status \<noteq> yajl_gen_status_ok \<longrightarrow>
      generate_recursive w gen ctx node = (- 1, gen2, ctx @ [''YAJL error: '' @ call_text c]))
   \<and> (emit_plan node = before @ Reject msg # after
        \<and> run_plan w gen ctx before = (0, gen1, ctx1) \<longrightarrow>
      generate_recursive w gen ctx node = (- 1, gen1, ctx @ [msg]))
   \<and> (json_generate w argv = Inr res \<longrightarrow>
        (rv res = 0 \<longrightarrow> ctx_errors res = [] \<and> (\<exists>str. ret res = Some (VString str)))
        \<and> (rv res \<noteq> 0 \<longrightarrow> ret res = None \<and> length (ctx_errors res) = 1))
   \<and> ((args = [node] \<and> gen0 = yajl_gen_alloc w
         \<or> args = [node, VHashMap config]
             \<and> config_gen w (yajl_gen_alloc w) (VHashMap config) = Inr gen0) \<longrightarrow>
        (emit_plan node = before @ Call c # after
           \<and> run_plan w gen0 [] before = (0, gen1, ctx1)
           \<and> yajl_gen w gen1 c = (status, gen2) \<and> status \<noteq> yajl_gen_status_ok \<longrightarrow>
         json_generate w args =
           Inr \<lparr>rv = - 1, ret = None, ctx_errors = [''YAJL error: '' @ call_text c],
                released_values = []\<rparr>)
        \<and> (emit_plan node = before @ Reject msg # after
           \<and> run_plan w gen0 [] before = (0, gen1, ctx1) \<longrightarrow>
         json_generate w args =
           Inr \<lparr>rv = - 1, ret = None, ctx_errors = [msg], released_values = []\<rparr>)
        \<and> (fst (generate_recursive w gen0 [] node) \<noteq> 0 \<longrightarrow>
         (\<exists>m. json_generate w args =
           Inr \<lparr>rv = - 1, ret = None, ctx_errors = [m], released_values = []\<rparr>))
        \<and> (generate_recursive w gen0 [] node = (0, gen3, ctx3) \<longrightarrow>
         json_generate w args =
           Inr (case yajl_gen_get_buf w gen3 of
                  (st, str) \<Rightarrow>
                    if st = yajl_gen_status_ok then
                      \<lparr>rv = 0, ret = Some (VString str), ctx_errors = [], released_values = []\<rparr>
                    else
                      \<lparr>rv = - 3, ret = None, ctx_errors = [''error generating JSON string''],
                       released_values = []\<rparr>)))"
proof -
  have call: "generate_recursive w gen ctx node = (- 1, gen2, ctx @ [''YAJL error: '' @ call_text c])"
    if "emit_plan node = before @ Call c # after"
      and b: "run_plan w gen ctx before = (0, gen1, ctx1)"
      and "yajl_gen w gen1 c = (status, gen2)" and "status \<noteq> yajl_gen_status_ok"
    for gen ctx
    using that run_plan_errors [OF b]
    by (simp add: generate_is_run_plan run_plan_append)
  have reject: "generate_recursive w gen ctx node = (- 1, gen1, ctx @ [msg])"
    if "emit_plan node = before @ Reject msg # after"
      and b: "run_plan w gen ctx before = (0, gen1, ctx1)"
    for gen ctx
    using that run_plan_errors [OF b]
    by (simp add: generate_is_run_plan run_plan_append)
  have top: "(emit_plan node = before @ Call c # after
           \<and> run_plan w gen0 [] before = (0, gen1, ctx1)
           \<and> yajl_gen w gen1 c = (status, gen2) \<and> status \<noteq> yajl_gen_status_ok \<longrightarrow>
         json_generate w args =
           Inr \<lparr>rv = - 1, ret = None, ctx_errors = [''YAJL error: '' @ call_text c],
                released_values = []\<rparr>)
        \<and> (emit_plan node = before @ Reject msg # after
           \<and> run_plan w gen0 [] before = (0, gen1, ctx1) \<longrightarrow>
         json_generate w args =
           Inr \<lparr>rv = - 1, ret = None, ctx_errors = [msg], released_values = []\<rparr>)
        \<and> (fst (generate_recursive w gen0 [] node) \<noteq> 0 \<longrightarrow>
         (\<exists>m. json_generate w args =
           Inr \<lparr>rv = - 1, ret = None, ctx_errors = [m], released_values = []\<rparr>))
        \<and> (generate_recursive w gen0 [] node = (0, gen3, ctx3) \<longrightarrow>
         json_generate w args =
           Inr (case yajl_gen_get_buf w gen3 of
                  (st, str) \<Rightarrow>
                    if st = yajl_gen_status_ok then
                      \<lparr>rv = 0, ret = Some (VString str), ctx_errors = [], released_values = []\<rparr>
                    else
                      \<lparr>rv = - 3, ret = None, ctx_errors = [''error generating JSON string''],
                       released_values = []\<rparr>))"
    if a: "args = [node] \<and> gen0 = yajl_gen_alloc w
         \<or> args = [node, VHashMap config]
             \<and> config_gen w (yajl_gen_alloc w) (VHashMap config) = Inr gen0"
  proof (intro conjI impI)
    assume "emit_plan node = before @ Call c # after
           \<and> run_plan w gen0 [] before = (0, gen1, ctx1)
           \<and> yajl_gen w gen1 c = (status, gen2) \<and> status \<noteq> yajl_gen_status_ok"
    then have "generate_recursive w gen0 [] node =
        (- 1, gen2, [] @ [''YAJL error: '' @ call_text c])"
      by (intro call) auto
    from json_generate_walk [OF a this]
    show "json_generate w args =
           Inr \<lparr>rv = - 1, ret = None, ctx_errors = [''YAJL error: '' @ call_text c],
                released_values = []\<rparr>"
      by simp
  next
    assume "emit_plan node = before @ Reject msg # after
           \<and> run_plan w gen0 [] before = (0, gen1, ctx1)"
    then have "generate_recursive w gen0 [] node = (- 1, gen1, [] @ [msg])"
      by (intro reject) auto
    from json_generate_walk [OF a this]
    show "json_generate w args =
           Inr \<lparr>rv = - 1, ret = None, ctx_errors = [msg], released_values = []\<rparr>"
      by simp
  next
    assume bad: "fst (generate_recursive w gen0 [] node) \<noteq> 0"
    obtain error g1 c1 where walk: "generate_recursive w gen0 [] node = (error, g1, c1)"
      by (cases "generate_recursive w gen0 [] node")
    then have "run_plan w gen0 [] (emit_plan node) = (error, g1, c1)"
      by (simp add: generate_is_run_plan(1))
    from run_plan_errors [OF this] bad walk obtain m where "error = - 1" and "c1 = [m]"
      by auto
    with json_generate_walk [OF a walk]
    show "\<exists>m. json_generate w args =
           Inr \<lparr>rv = - 1, ret = None, ctx_errors = [m], released_values = []\<rparr>"
      by simp
  next
    assume walk: "generate_recursive w gen0 [] node = (0, gen3, ctx3)"
    then have "run_plan w gen0 [] (emit_plan node) = (0, gen3, ctx3)"
      by (simp add: generate_is_run_plan(1))
    from run_plan_errors [OF this] have "ctx3 = []" by simp
    with json_generate_walk [OF a walk]
    show "json_generate w args =
           Inr (case yajl_gen_get_buf w gen3 of
                  (st, str) \<Rightarrow>
                    if st = yajl_gen_status_ok then
                      \<lparr>rv = 0, ret = Some (VString str), ctx_errors = [], released_values = []\<rparr>
                    else
                      \<lparr>rv = - 3, ret = None, ctx_errors = [''error generating JSON string''],
                       released_values = []\<rparr>)"
      by (simp split: prod.splits)
  qed
  from call [of gen ctx] reject [of gen ctx] json_generate_outcome [of w argv res] top
  show ?thesis
    by (simp add: generate_is_run_plan(1))
qed

theorem generate_aborts_at_first_error_witness:
  "generate_recursive
      (logging_writer (\<lambda>c. if c = Gen_double 0 then yajl_gen_invalid_number else yajl_gen_status_ok))
      [] [] (VArray [VInt 1, VFloat 0, VInt 2]) =
     (- 1, [Gen_array_open, Gen_integer 1, Gen_double 0],
      [''YAJL error: yajl_gen_double(gen, spn_floatvalue(&node))''])
   \<and> generate_recursive (logging_writer (\<lambda>c. yajl_gen_status_ok))
      [] [] (VArray [VInt 1, VUserInfo (AddrOther 7), VInt 2]) =
     (- 1, [Gen_array_open, Gen_integer 1], [''found non-serializable value''])
   \<and> json_generate
      (logging_writer (\<lambda>c. if c = Gen_double 0 then yajl_gen_invalid_number else yajl_gen_status_ok))
      [VArray [VInt 1, VFloat 0, VInt 2]] =
     Inr \<lparr>rv = - 1, ret = None,
          ctx_errors = [''YAJL error: yajl_gen_double(gen, spn_floatvalue(&node))''],
          released_values = []\<rparr>
   \<and> json_generate (logging_writer (\<lambda>c. yajl_gen_status_ok))
      [VArray [VInt 1, VUserInfo (AddrOther 7), VInt 2], VHashMap [(VString ''beautify'', VBool True)]] =
     Inr \<lparr>rv = - 1, ret = None, ctx_errors = [''found non-serializable value''],
          released_values = []\<rparr>"
proof -
  let ?w = "logging_writer (\<lambda>c. if c = Gen_double 0 then yajl_gen_invalid_number else yajl_gen_status_ok)"
  let ?v = "logging_writer (\<lambda>c. yajl_gen_status_ok)"
  let ?a = "VArray [VInt 1, VFloat 0, VInt 2]"
  let ?b = "VArray [VInt 1, VUserInfo (AddrOther 7), VInt 2]"
  let ?config = "[(VString ''beautify'', VBool True)]"
  have p: "emit_plan ?a =
        [Call Gen_array_open, Call (Gen_integer 1)] @ Call (Gen_double 0) #
          [Call (Gen_integer 2), Call Gen_array_close]
      \<and> run_plan ?w [] [] [Call Gen_array_open, Call (Gen_integer 1)] =
          (0, [Gen_array_open, Gen_integer 1], [])
      \<and> yajl_gen ?w [Gen_array_open, Gen_integer 1] (Gen_double 0) =
          (yajl_gen_invalid_number, [Gen_array_open, Gen_integer 1, Gen_double 0])
      \<and> yajl_gen_invalid_number \<noteq> yajl_gen_status_ok"
    by (simp add: logging_writer_def)
  have q: "emit_plan ?b =
        [Call Gen_array_open, Call (Gen_integer 1)] @ Reject ''found non-serializable value'' #
          [Call (Gen_integer 2), Call Gen_array_close]
      \<and> run_plan ?v [] [] [Call Gen_array_open, Call (Gen_integer 1)] =
          (0, [Gen_array_open, Gen_integer 1], [])"
    by (simp add: logging_writer_def)
  have a1: "[?a] = [?a] \<and> [] = yajl_gen_alloc ?w
         \<or> [?a] = [?a, VHashMap ?config]
             \<and> config_gen ?w (yajl_gen_alloc ?w) (VHashMap ?config) = Inr []"
    by (simp add: logging_writer_def)
  have a2: "[?b, VHashMap ?config] = [?b] \<and> [] = yajl_gen_alloc ?v
         \<or> [?b, VHashMap ?config] = [?b, VHashMap ?config]
             \<and> config_gen ?v (yajl_gen_alloc ?v) (VHashMap ?config) = Inr []"
    by (simp add: logging_writer_def config_gen_eq)
  note t1 = generate_aborts_at_first_error [where w = ?w and node = ?a and gen = "[]"
      and ctx = "[]" and gen0 = "[]" and args = "[?a]" and config = ?config]
  note t2 = generate_aborts_at_first_error [where w = ?v and node = ?b and gen = "[]"
      and ctx = "[]" and gen0 = "[]" and args = "[?b, VHashMap ?config]" and config = ?config]
  have "generate_recursive ?w [] [] ?a =
     (- 1, [Gen_array_open, Gen_integer 1, Gen_double 0],
      [] @ [''YAJL error: '' @ call_text (Gen_double 0)])"
    by (rule t1 [THEN conjunct2, THEN conjunct1, THEN mp, OF p])
  moreover have "generate_recursive ?v [] [] ?b =
     (- 1, [Gen_array_open, Gen_integer 1], [] @ [''found non-serializable value''])"
    by (rule t2 [THEN conjunct2, THEN conjunct2, THEN conjunct1, THEN mp, OF q])
  moreover have "json_generate ?w [?a] =
     Inr \<lparr>rv = - 1, ret = None, ctx_errors = [''YAJL error: '' @ call_text (Gen_double 0)],
          released_values = []\<rparr>"
    by (rule t1 [THEN conjunct2, THEN conjunct2, THEN conjunct2, THEN conjunct2, THEN mp, OF a1,
          THEN conjunct1, THEN mp, OF p])
  moreover have "json_generate ?v [?b, VHashMap ?config] =
     Inr \<lparr>rv = - 1, ret = None, ctx_errors = [''found non-serializable value''],
          released_values = []\<rparr>"
    by (rule t2 [THEN conjunct2, THEN conjunct2, THEN conjunct2, THEN conjunct2, THEN mp, OF a2,
          THEN conjunct2, THEN conjunct1, THEN mp, OF q])
  ultimately show ?thesis by simp
qed

text \<open>
  C6. Given a Lexer that raises the integer 123 for the text \<^verbatim>\<open>123 456\<close> and
  reports a failure from one of its two calls, \<open>json_parse\<close> returns -4 or -5
  (-5 when the failure comes from \<^verbatim>\<open>yajl_complete_parse\<close>), stores no value
  and reports the Lexer's message, although the same events with no failure, for the
  text \<^verbatim>\<open>123\<close>, return the integer. For every text, a failure of
  \<^verbatim>\<open>yajl_complete_parse\<close> after the whole input was fed makes the parse fail.
\<close>

theorem trailing_garbage_fails:
  assumes lexer: "lx yajl_alloc ''123 456'' = run"
    and events: "parse_events run @ complete_events run = [EvInteger 123]"
    and failed: "parse_status run \<noteq> yajl_status_ok \<or> complete_status run \<noteq> yajl_status_ok"
    and lexer': "lx yajl_alloc ''123'' = run'"
    and events': "parse_events run' @ complete_events run' = [EvInteger 123]"
    and status': "parse_status run' = yajl_status_ok \<and> complete_status run' = yajl_status_ok"
  shows "json_parse lx [VString ''123 456''] =
       Inr \<lparr>rv = (if parse_status run \<noteq> yajl_status_ok then - 4 else - 5), ret = None,
            ctx_errors = [''error parsing JSON: '' @ error_string run],
            released_values = [VInt 123]\<rparr>
     \<and> (lx yajl_alloc s = r
          \<and> yajl_deliver (parse_events r @ complete_events r) yajl_status_ok state_init =
              Inr (yajl_status_ok, state)
          \<and> complete_status r \<noteq> yajl_status_ok \<longrightarrow>
          (\<exists>res. json_parse lx [VString s] = Inr res \<and> rv res \<noteq> 0 \<and> ret res = None
             \<and> ctx_errors res = [''error parsing JSON: '' @ error_string r]))
     \<and> json_parse lx [VString ''123''] =
       Inr \<lparr>rv = 0, ret = Some (VInt 123), ctx_errors = [], released_values = []\<rparr>"
proof -
  have d: "yajl_deliver (parse_events r @ complete_events r) yajl_status_ok state_init =
      Inr (yajl_status_ok, state_init\<lparr>root := VInt 123\<rparr>)"
    if "parse_events r @ complete_events r = [EvInteger 123]" for r
    unfolding that by (simp add: cb_integer_def set_value_def state_init_def)
  have bad: "json_parse lx [VString ''123 456''] =
       Inr \<lparr>rv = (if parse_status run \<noteq> yajl_status_ok then - 4 else - 5), ret = None,
            ctx_errors = [''error parsing JSON: '' @ error_string run],
            released_values = [VInt 123]\<rparr>"
    using json_parse_run [where lx = lx and hndl = yajl_alloc and s = "''123 456''"
        and argv = "[VString ''123 456'']" and start = state_init, OF _ lexer d [OF events]] failed
    by (auto simp: state_init_def)
  have good: "json_parse lx [VString ''123''] =
       Inr \<lparr>rv = 0, ret = Some (VInt 123), ctx_errors = [], released_values = []\<rparr>"
    using json_parse_run [where lx = lx and hndl = yajl_alloc and s = "''123''"
        and argv = "[VString ''123'']" and start = state_init, OF _ lexer' d [OF events']] status'
    by (simp add: state_init_def)
  have any: "\<exists>res. json_parse lx [VString s] = Inr res \<and> rv res \<noteq> 0 \<and> ret res = None
             \<and> ctx_errors res = [''error parsing JSON: '' @ error_string r]"
    if l: "lx yajl_alloc s = r"
      and dl: "yajl_deliver (parse_events r @ complete_events r) yajl_status_ok state_init =
              Inr (yajl_status_ok, state)"
      and c: "complete_status r \<noteq> yajl_status_ok"
    using json_parse_run [where lx = lx and hndl = yajl_alloc and s = s
        and argv = "[VString s]" and start = state_init, OF _ l dl] c
    by simp
  from bad good any show ?thesis by blast
qed

theorem trailing_garbage_fails_witness:
  "json_parse
     (\<lambda>hndl text. \<lparr>parse_events = [EvInteger 123], parse_status = yajl_status_ok,
        complete_events = [],
        complete_status = (if text = ''123'' then yajl_status_ok else yajl_status_error),
        error_string = ''parse error: trailing garbage''\<rparr>)
     [VString ''123 456''] =
   Inr \<lparr>rv = - 5, ret = None,
        ctx_errors = [''error parsing JSON: parse error: trailing garbage''],
        released_values = [VInt 123]\<rparr>
   \<and> json_parse
     (\<lambda>hndl text. \<lparr>parse_events = [EvInteger 123], parse_status = yajl_status_ok,
        complete_events = [],
        complete_status = (if text = ''123'' then yajl_status_ok else yajl_status_error),
        error_string = ''parse error: trailing garbage''\<rparr>)
     [VString ''123''] =
   Inr \<lparr>rv = 0, ret = Some (VInt 123), ctx_errors = [], released_values = []\<rparr>"
proof -
  let ?lx = "\<lambda>hndl text. \<lparr>parse_events = [EvInteger 123], parse_status = yajl_status_ok,
        complete_events = [],
        complete_status = (if text = ''123'' then yajl_status_ok else yajl_status_error),
        error_string = ''parse error: trailing garbage''\<rparr>"
  let ?run = "\<lparr>parse_events = [EvInteger 123], parse_status = yajl_status_ok,
        complete_events = [], complete_status = yajl_status_error,
        error_string = ''parse error: trailing garbage''\<rparr>"
  let ?run' = "\<lparr>parse_events = [EvInteger 123], parse_status = yajl_status_ok,
        complete_events = [], complete_status = yajl_status_ok,
        error_string = ''parse error: trailing garbage''\<rparr>"
  have lexer: "?lx yajl_alloc ''123 456'' = ?run" by simp
  have events: "parse_events ?run @ complete_events ?run = [EvInteger 123]" by simp
  have failed: "parse_status ?run \<noteq> yajl_status_ok \<or> complete_status ?run \<noteq> yajl_status_ok"
    by simp
  have lexer': "?lx yajl_alloc ''123'' = ?run'" by simp
  have events': "parse_events ?run' @ complete_events ?run' = [EvInteger 123]" by simp
  have status': "parse_status ?run' = yajl_status_ok \<and> complete_status ?run' = yajl_status_ok"
    by simp
  from trailing_garbage_fails [where lx = ?lx, OF lexer events failed lexer' events' status']
  show ?thesis by simp
qed

text \<open>
  C7. For a map whose keys are strings the generator opens a map, then for each pair
  in the map's iteration order emits the key as a string and then the value, then
  closes the map. A map built by setting distinct keys one after the other iterates
  in that order, without the keys that were set to nil, so the order of insertion is
  the order of emission.
\<close>

theorem map_emitted_in_order:
  "((\<forall>kv \<in> set hm. spn_isstring (fst kv)) \<longrightarrow>
      generate_recursive w gen ctx (VHashMap hm) =
        run_plan w gen ctx
          (Call Gen_map_open
             # concat (map (\<lambda>(k, v). Call (Gen_string (spn_stringvalue k)) # emit_plan v) hm)
             @ [Call Gen_map_close]))
   \<and> (distinct (map fst kvs) \<longrightarrow>
        fold (\<lambda>(k, v) m. spn_hashmap_set m k v) kvs [] =
          filter (\<lambda>kv. \<not> spn_isnil (snd kv)) kvs)
   \<and> (distinct (map fst kvs) \<and> (\<forall>kv \<in> set kvs. \<not> spn_isnil (snd kv)) \<longrightarrow>
        fold (\<lambda>(k, v) m. spn_hashmap_set m k v) kvs [] = kvs)"
proof -
  have "filter (\<lambda>kv. \<not> spn_isnil (snd kv)) kvs = kvs"
    if "\<forall>kv \<in> set kvs. \<not> spn_isnil (snd kv)"
    using that by (induction kvs) auto
  with fold_spn_hashmap_set [of kvs "[]"] show ?thesis
    by (simp add: generate_is_run_plan(1) emit_plan_hashmap_strings)
qed

theorem map_emitted_in_order_witness:
  "generate_recursive (logging_writer (\<lambda>c. yajl_gen_status_ok)) [] []
      (VHashMap [(VString ''b'', VInt 1), (VString ''a'', VArray [VBool True])]) =
     (0, [Gen_map_open, Gen_string ''b'', Gen_integer 1,
          Gen_string ''a'', Gen_array_open, Gen_bool True, Gen_array_close, Gen_map_close], [])
   \<and> fold (\<lambda>(k, v) m. spn_hashmap_set m k v)
        [(VString ''b'', VInt 1), (VString ''a'', VArray [VBool True])] [] =
      [(VString ''b'', VInt 1), (VString ''a'', VArray [VBool True])]"
proof -
  let ?hm = "[(VString ''b'', VInt 1), (VString ''a'', VArray [VBool True])]"
  have keys: "\<forall>kv \<in> set ?hm. spn_isstring (fst kv)" by simp
  have dist: "distinct (map fst ?hm) \<and> (\<forall>kv \<in> set ?hm. \<not> spn_isnil (snd kv))" by simp
  note order = map_emitted_in_order [where hm = ?hm and kvs = ?hm
      and w = "logging_writer (\<lambda>c. yajl_gen_status_ok)" and gen = "[]" and ctx = "[]"]
  from order [THEN conjunct1, THEN mp, OF keys]
    order [THEN conjunct2, THEN conjunct2, THEN mp, OF dist]
  show ?thesis by (simp add: logging_writer_def)
qed

text \<open>
  C8. On every run of events that the Lexer's nesting allows, from any state of the
  builder whose stack matches the Lexer's nesting (at the start of a parse both are
  empty) and in either mode of \<^verbatim>\<open>parse_null\<close>, the callbacks run without a
  failed assertion, and the pending key of each frame is a string exactly while the
  Lexer stands between a key of that map and the end of that key's value, and nil
  otherwise. So the key of the top frame is nil immediately before an end event and
  before a key event, the frame a start event pushes has a nil key and leaves the
  frames below as they are, and the key is nil again once a value has been attached
  under it. The key of a map frame is not nil before every start event: a start event
  that opens the value of a key finds that key pending, and it stays pending until
  the container is closed.
\<close>

theorem pending_key_invariant:
  assumes nested: "lexer_steps (d0, ns0) es = Some (d, ns)"
    and start: "list_all2 frame_matches ns0 (stack start)"
    and parents: "InMapKey \<notin> set (tl ns0)"
  shows "\<exists>state. yajl_deliver es own start = Inr (own, state)
     \<and> explicit_null state = explicit_null start
     \<and> list_all2 frame_matches ns (stack state)
     \<and> list_all2 (\<lambda>n node. (node_key node \<noteq> spn_nilval) = (n = InMapValue)) ns (stack state)
     \<and> (lexer_step (d, ns) EvEndArray \<noteq> None \<or> lexer_step (d, ns) EvEndMap \<noteq> None \<longrightarrow>
          (\<exists>node below. stack state = node # below \<and> node_key node = spn_nilval))
     \<and> (lexer_step (d, ns) (EvMapKey k) \<noteq> None \<longrightarrow>
          (\<exists>node below. stack state = node # below \<and> node_key node = spn_nilval))
     \<and> cb_start_array state =
          Inr (1, state\<lparr>stack := \<lparr>node_key = spn_nilval, node_value = VArray []\<rparr> # stack state\<rparr>)
     \<and> cb_start_map state =
          Inr (1, state\<lparr>stack := \<lparr>node_key = spn_nilval, node_value = VHashMap []\<rparr> # stack state\<rparr>)"
proof -
  from deliver_matches [OF start parents nested, of own] obtain state where
    run: "yajl_deliver es own start = Inr (own, state)"
    and m: "list_all2 frame_matches ns (stack state)"
    and en: "explicit_null state = explicit_null start" by blast
  have keys: "list_all2 (\<lambda>n node. (node_key node \<noteq> spn_nilval) = (n = InMapValue)) ns (stack state)"
    using m by (rule list_all2_mono) (simp add: frame_matches_key)
  have top: "\<exists>node below. stack state = node # below \<and> node_key node = spn_nilval"
    if "ns = n # rest" and "n \<noteq> InMapValue" for n rest
    using keys that by (auto simp: list_all2_Cons1)
  have ends: "\<exists>node below. stack state = node # below \<and> node_key node = spn_nilval"
    if "lexer_step (d, ns) EvEndArray \<noteq> None \<or> lexer_step (d, ns) EvEndMap \<noteq> None"
    using that top by (auto split: list.splits nesting.splits)
  have key: "\<exists>node below. stack state = node # below \<and> node_key node = spn_nilval"
    if "lexer_step (d, ns) (EvMapKey k) \<noteq> None"
    using that top by (auto split: list.splits nesting.splits)
  have starts: "cb_start_array state =
            Inr (1, state\<lparr>stack := \<lparr>node_key = spn_nilval, node_value = VArray []\<rparr> # stack state\<rparr>)"
       "cb_start_map state =
            Inr (1, state\<lparr>stack := \<lparr>node_key = spn_nilval, node_value = VHashMap []\<rparr> # stack state\<rparr>)"
    by (simp_all add: cb_start_array_def cb_start_map_def state_push_def)
  from run en m keys ends key starts show ?thesis by blast
qed

theorem pending_key_invariant_witness:
  "yajl_deliver [EvStartMap, EvMapKey ''a'', EvStartArray, EvNull, EvEndArray, EvMapKey ''b'']
       yajl_status_ok (state_init\<lparr>explicit_null := True\<rparr>) =
     Inr (yajl_status_ok,
       \<lparr>root = VNil,
        stack = [\<lparr>node_key = VString ''b'',
                  node_value = VHashMap [(VString ''a'', VArray [null_value])]\<rparr>],
        explicit_null = True,
        released = [null_value, VString ''a'', VArray [null_value]]\<rparr>)
   \<and> list_all2 frame_matches [InMapValue]
        [\<lparr>node_key = VString ''b'', node_value = VHashMap [(VString ''a'', VArray [null_value])]\<rparr>]
   \<and> yajl_deliver [EvStartMap, EvMapKey ''a'', EvNull]
       yajl_status_ok state_init =
     Inr (yajl_status_ok,
       \<lparr>root = VNil,
        stack = [\<lparr>node_key = VNil, node_value = VHashMap []\<rparr>],
        explicit_null = False,
        released = [VString ''a'', VNil]\<rparr>)
   \<and> list_all2 frame_matches [InMapKey] [\<lparr>node_key = VNil, node_value = VHashMap []\<rparr>]"
proof -
  let ?es = "[EvStartMap, EvMapKey ''a'', EvStartArray, EvNull, EvEndArray, EvMapKey ''b'']"
  let ?fs = "[EvStartMap, EvMapKey ''a'', EvNull]"
  have nested: "lexer_steps (False, []) ?es = Some (False, [InMapValue])"
    by (simp add: value_done_def)
  have nested': "lexer_steps (False, []) ?fs = Some (False, [InMapKey])"
    by (simp add: value_done_def)
  have start: "list_all2 frame_matches [] (stack (state_init\<lparr>explicit_null := True\<rparr>))"
    by (simp add: state_init_def)
  have start': "list_all2 frame_matches [] (stack state_init)"
    by (simp add: state_init_def)
  have parents: "InMapKey \<notin> set (tl [])"
    by simp
  have run: "yajl_deliver ?es yajl_status_ok (state_init\<lparr>explicit_null := True\<rparr>) =
     Inr (yajl_status_ok,
       \<lparr>root = VNil,
        stack = [\<lparr>node_key = VString ''b'',
                  node_value = VHashMap [(VString ''a'', VArray [null_value])]\<rparr>],
        explicit_null = True,
        released = [null_value, VString ''a'', VArray [null_value]]\<rparr>)"
    by (simp add: state_init_def spn_nilval_def cb_start_map_def cb_map_key_def
        cb_start_array_def cb_null_def cb_end_array_def set_value_def state_push_def
        state_pop_def spn_hashmap_set_def)
  have run': "yajl_deliver ?fs yajl_status_ok state_init =
     Inr (yajl_status_ok,
       \<lparr>root = VNil,
        stack = [\<lparr>node_key = VNil, node_value = VHashMap []\<rparr>],
        explicit_null = False,
        released = [VString ''a'', VNil]\<rparr>)"
    by (simp add: state_init_def spn_nilval_def cb_start_map_def cb_map_key_def
        cb_null_def set_value_def state_push_def spn_hashmap_set_def)
  from pending_key_invariant [OF nested start parents, of yajl_status_ok] run
    pending_key_invariant [OF nested' start' parents, of yajl_status_ok] run'
  show ?thesis
    by auto
qed

theorem pending_key_before_start_counterexample:
  "lexer_steps (False, []) [EvStartMap, EvMapKey ''a'', EvStartArray, EvEndArray, EvEndMap] =
     Some (True, [])
   \<and> yajl_deliver [EvStartMap, EvMapKey ''a''] yajl_status_ok state_init =
     Inr (yajl_status_ok,
       state_init\<lparr>stack := [\<lparr>node_key = VString ''a'', node_value = VHashMap []\<rparr>]\<rparr>)
   \<and> lexer_step (False, [InMapValue]) EvStartArray = Some (False, [InArray, InMapValue])
   \<and> VString ''a'' \<noteq> spn_nilval"
  by (simp add: value_done_def state_init_def spn_nilval_def cb_start_map_def cb_map_key_def
      state_push_def)



text \<open>
  C10. Every callback that runs to its end returns 1, for every event and every state,
  so a delivery of events that is not cut by a failed assertion ends with the status
  the Lexer gave of its own, and \<open>json_parse\<close> returns -4 or -5 only when one of
  the Lexer's two calls reported a status other than ok: the builder never cancels a
  parse.
\<close>

theorem callbacks_report_success:
  "(parser_callbacks e state = Inr (r, state') \<longrightarrow> r = 1)
   \<and> (yajl_deliver es own state = Inr (status, state'') \<longrightarrow> status = own)
   \<and> (json_parse lx argv = Inr res \<and> (rv res = - 4 \<or> rv res = - 5) \<longrightarrow>
        (\<exists>hndl. parse_status (lx hndl (spn_stringvalue (argv ! 0))) \<noteq> yajl_status_ok
           \<or> complete_status (lx hndl (spn_stringvalue (argv ! 0))) \<noteq> yajl_status_ok))"
  using parser_callbacks_returns_1 yajl_deliver_own_status json_parse_failure_origin by blast

theorem callbacks_report_success_witness:
  "parser_callbacks (EvInteger 5) state_init = Inr (1, state_init\<lparr>root := VInt 5\<rparr>)
   \<and> yajl_deliver [EvStartArray, EvInteger 5, EvEndArray] yajl_status_error state_init =
       Inr (yajl_status_error, state_init\<lparr>root := VArray [VInt 5], released := [VInt 5]\<rparr>)
"
  using callbacks_report_success [where e = "EvInteger 5" and state = state_init and r = 1
      and state' = "state_init\<lparr>root := VInt 5\<rparr>"
      and es = "[EvStartArray, EvInteger 5, EvEndArray]" and own = yajl_status_error
      and status = yajl_status_error
      and state'' = "state_init\<lparr>root := VArray [VInt 5], released := [VInt 5]\<rparr>"]
  by (simp add: state_init_def spn_nilval_def cb_integer_def cb_start_array_def cb_end_array_def
      set_value_def state_push_def state_pop_def)

end
